theory Spec2Isabelle
  imports Main "HOL-Library.Word" "HOL-Library.Multiset" "HOL-Library.Sublist"
begin

unbundle bit_operations_syntax

section \<open>JavaScript strings and values\<close>

text \<open>
  A JavaScript string is a sequence of 16-bit code units. \<open>js\<close> embeds an ASCII literal,
  so that \<open>js ''phq-9''\<close> is the string \<^verbatim>\<open>'phq-9'\<close> of the source.
\<close>

type_synonym jschar = "16 word"
type_synonym jsstring = "jschar list"

definition cu :: "char \<Rightarrow> jschar" where
  "cu c = of_nat (of_char c)"

definition js :: "string \<Rightarrow> jsstring" where
  "js s = map cu s"

text \<open>
  The values a field of an entry (or an argument typed \<^verbatim>\<open>unknown\<close>) can hold. The number
  type \<open>'n\<close> is the runtime's IEEE double; its operations are builtins of the runtime and
  are taken from the \<open>host\<close> record below. Plain objects, functions and symbols are not
  part of the model.
\<close>

datatype 'n jsvalue =
    Undefined
  | Null
  | Bool bool
  | Num 'n
  | Str jsstring
  | Arr "'n jsvalue list"

text \<open>\<^verbatim>\<open>interface LogEntry { id; date; domainKey; score; note }\<close>; a missing property reads as
  \<open>Undefined\<close>. The fields carry the prefix \<open>e_\<close>.\<close>

record 'n entry =
  e_id :: "'n jsvalue"
  e_date :: "'n jsvalue"
  e_domainKey :: "'n jsvalue"
  e_score :: "'n jsvalue"
  e_note :: "'n jsvalue"

datatype js_error =
    Error string
  | TypeError
  | SecurityError
  | QuotaExceededError
  | InvalidCharacterError

text \<open>
  The builtins of the JavaScript runtime that the code calls and that are not code of the
  repository: the Number operations, \<^verbatim>\<open>Date\<close> parsing, \<^verbatim>\<open>JSON\<close>, base64 and
  \<^verbatim>\<open>Array.prototype.sort\<close> as \<^verbatim>\<open>sortEntries\<close> applies it to the entries (the language
  fixes its result only up to the comparator being consistent).
  \<open>None\<close> stands for a thrown exception in \<open>JSON_parse\<close>, \<open>btoa\<close> and \<open>atob\<close>, and for
  the result \<^verbatim>\<open>undefined\<close> in \<open>JSON_stringify\<close>.
\<close>

record 'n host =
  Number_toString :: "'n \<Rightarrow> jsstring"
  Number_isNaN :: "'n \<Rightarrow> bool"
  Number_isZero :: "'n \<Rightarrow> bool"
  Number_le :: "'n \<Rightarrow> 'n \<Rightarrow> bool"
  StringToNumber :: "jsstring \<Rightarrow> 'n"
  parseFloat :: "jsstring \<Rightarrow> 'n"
  parseInt :: "jsstring \<Rightarrow> 'n"
  Date_isValid :: "'n jsvalue \<Rightarrow> bool"
  JSON_stringify :: "'n jsvalue \<Rightarrow> jsstring option"
  JSON_parse :: "jsstring \<Rightarrow> 'n jsvalue option"
  btoa :: "jsstring \<Rightarrow> jsstring option"
  atob :: "jsstring \<Rightarrow> jsstring option"
  Array_sort :: "'n entry list \<Rightarrow> 'n entry list"

text \<open>\<^verbatim>\<open>Array.prototype.join\<close> on strings.\<close>

fun join :: "jsstring \<Rightarrow> jsstring list \<Rightarrow> jsstring" where
  "join sep [] = []"
| "join sep [x] = x"
| "join sep (x # y # ys) = x @ sep @ join sep (y # ys)"

text \<open>\<^verbatim>\<open>String(value)\<close>. An array prints its elements joined by commas, \<^verbatim>\<open>null\<close> and
  \<^verbatim>\<open>undefined\<close> elements as the empty string.\<close>

fun toString :: "'n host \<Rightarrow> 'n jsvalue \<Rightarrow> jsstring" where
  "toString H Undefined = js ''undefined''"
| "toString H Null = js ''null''"
| "toString H (Bool b) = (if b then js ''true'' else js ''false'')"
| "toString H (Num n) = Number_toString H n"
| "toString H (Str s) = s"
| "toString H (Arr xs) =
     join (js '','')
       (map (\<lambda>x. case x of Undefined \<Rightarrow> [] | Null \<Rightarrow> [] | _ \<Rightarrow> toString H x) xs)"

text \<open>\<^verbatim>\<open>!value\<close> is \<open>\<not> truthy H value\<close>.\<close>

fun truthy :: "'n host \<Rightarrow> 'n jsvalue \<Rightarrow> bool" where
  "truthy H Undefined = False"
| "truthy H Null = False"
| "truthy H (Bool b) = b"
| "truthy H (Num n) = (\<not> Number_isZero H n \<and> \<not> Number_isNaN H n)"
| "truthy H (Str s) = (s \<noteq> [])"
| "truthy H (Arr xs) = True"

text \<open>The global \<^verbatim>\<open>isNaN(value)\<close>, which converts its argument to a number first.\<close>

fun isNaN :: "'n host \<Rightarrow> 'n jsvalue \<Rightarrow> bool" where
  "isNaN H Undefined = True"
| "isNaN H Null = False"
| "isNaN H (Bool b) = False"
| "isNaN H (Num n) = Number_isNaN H n"
| "isNaN H (Str s) = Number_isNaN H (StringToNumber H s)"
| "isNaN H (Arr xs) = Number_isNaN H (StringToNumber H (toString H (Arr xs)))"

section \<open>Character classes, \<^verbatim>\<open>trim\<close> and the regular expressions of the source\<close>

text \<open>White space and line terminators: what \<^verbatim>\<open>\s\<close> matches and \<^verbatim>\<open>trim()\<close> strips.\<close>

definition isWhiteSpace :: "jschar \<Rightarrow> bool" where
  "isWhiteSpace c \<longleftrightarrow>
     c \<in> {0x09, 0x0A, 0x0B, 0x0C, 0x0D, 0x20, 0xA0, 0x1680, 0x2028, 0x2029, 0x202F,
          0x205F, 0x3000, 0xFEFF} \<or> (0x2000 \<le> c \<and> c \<le> 0x200A)"

text \<open>\<^verbatim>\<open>\w\<close> is \<^verbatim>\<open>[A-Za-z0-9_]\<close>.\<close>

definition isWordChar :: "jschar \<Rightarrow> bool" where
  "isWordChar c \<longleftrightarrow>
     (0x41 \<le> c \<and> c \<le> 0x5A) \<or> (0x61 \<le> c \<and> c \<le> 0x7A) \<or> (0x30 \<le> c \<and> c \<le> 0x39) \<or> c = 0x5F"

definition trim :: "jsstring \<Rightarrow> jsstring" where
  "trim s = rev (dropWhile isWhiteSpace (rev (dropWhile isWhiteSpace s)))"

text \<open>
  A pattern character under the \<^verbatim>\<open>i\<close> flag (without \<^verbatim>\<open>u\<close>): a letter matches itself in
  either case; a code unit outside ASCII never matches an ASCII letter.
\<close>

definition lit_i :: "char \<Rightarrow> jschar \<Rightarrow> bool" where
  "lit_i p c \<longleftrightarrow>
     c = cu p
     \<or> (0x61 \<le> cu p \<and> cu p \<le> 0x7A \<and> c = cu p - 0x20)
     \<or> (0x41 \<le> cu p \<and> cu p \<le> 0x5A \<and> c = cu p + 0x20)"

text \<open>
  The regular expressions of the source are sequences of single-character classes, each
  taken once, greedily (\<^verbatim>\<open>+\<close>, \<^verbatim>\<open>*\<close>) or lazily (\<^verbatim>\<open>*?\<close>). \<open>rmatch r s\<close> is the
  backtracking match of \<open>r\<close> at the start of \<open>s\<close>: the rest of \<open>s\<close> behind the match that
  the engine finds first, or \<open>None\<close>.
\<close>

datatype atom =
    One "jschar \<Rightarrow> bool"
  | Plus "jschar \<Rightarrow> bool"
  | Star "jschar \<Rightarrow> bool"
  | LazyStar "jschar \<Rightarrow> bool"

fun rmatch :: "atom list \<Rightarrow> jsstring \<Rightarrow> jsstring option" where
  "rmatch [] s = Some s"
| "rmatch (One p # r) [] = None"
| "rmatch (One p # r) (c # s) = (if p c then rmatch r s else None)"
| "rmatch (Plus p # r) [] = None"
| "rmatch (Plus p # r) (c # s) = (if p c then rmatch (Star p # r) s else None)"
| "rmatch (Star p # r) [] = rmatch r []"
| "rmatch (Star p # r) (c # s) =
     (if p c then (case rmatch (Star p # r) s of Some rest \<Rightarrow> Some rest | None \<Rightarrow> rmatch r (c # s))
      else rmatch r (c # s))"
| "rmatch (LazyStar p # r) [] = rmatch r []"
| "rmatch (LazyStar p # r) (c # s) =
     (case rmatch r (c # s) of
        Some rest \<Rightarrow> Some rest
      | None \<Rightarrow> if p c then rmatch (LazyStar p # r) s else None)"

text \<open>\<^verbatim>\<open>regex.test(s)\<close> for a regular expression whose \<^verbatim>\<open>lastIndex\<close> is 0: a match at some
  position.\<close>

fun regex_test :: "atom list \<Rightarrow> jsstring \<Rightarrow> bool" where
  "regex_test r [] = (rmatch r [] \<noteq> None)"
| "regex_test r (c # s) = (rmatch r (c # s) \<noteq> None \<or> regex_test r s)"

text \<open>
  \<^verbatim>\<open>s.replace(/r/g, rep)\<close> for a replacement string without \<^verbatim>\<open>$\<close>: matches are taken
  from left to right and do not overlap; after an empty match the scan moves on by one
  code unit.
\<close>

function replace_all :: "atom list \<Rightarrow> jsstring \<Rightarrow> jsstring \<Rightarrow> jsstring" where
  "replace_all r rep s =
     (case rmatch r s of
        Some rest \<Rightarrow>
          if length rest < length s then rep @ replace_all r rep rest
          else (case s of [] \<Rightarrow> rep | c # s' \<Rightarrow> rep @ c # replace_all r rep s')
      | None \<Rightarrow> (case s of [] \<Rightarrow> [] | c # s' \<Rightarrow> c # replace_all r rep s'))"
  by pat_completeness auto
termination
  by (relation "measure (\<lambda>(r, rep, s). length s)") auto

declare replace_all.simps [simp del]

definition lits :: "string \<Rightarrow> atom list" where
  "lits p = map (\<lambda>c. One (\<lambda>x. x = cu c)) p"

definition lits_i :: "string \<Rightarrow> atom list" where
  "lits_i p = map (\<lambda>c. One (lit_i c)) p"

section \<open>SecurityManager\<close>

text \<open>
  The repository holds two builds of \<^verbatim>\<open>SecurityManager\<close>. The TypeScript build
  (\<^verbatim>\<open>src/unnamed/part_003\<close>) turns an input that is not a string into its string form:
  \<^verbatim>\<open>
  static sanitizeInput(input: unknown): string {
    if (typeof input !== 'string') { return String(input); }
    return input
      .replace(/[<>]/g, '') // Remove angle brackets
      .replace(/javascript:/gi, '') // Remove javascript: protocol
      .replace(/on\w+=/gi, '') // Remove event handlers
      .replace(/data:/gi, '') // Remove data: protocol
      .trim();
  }
  \<close>
\<close>

definition sanitizeInput :: "'n host \<Rightarrow> 'n jsvalue \<Rightarrow> jsstring" where
  "sanitizeInput H input =
     (case input of
        Str s \<Rightarrow>
          trim
            (replace_all (lits_i ''data:'') []
              (replace_all (lits_i ''on'' @ [Plus isWordChar, One (\<lambda>c. c = cu CHR ''='')]) []
                (replace_all (lits_i ''javascript:'') []
                  (replace_all [One (\<lambda>c. c = cu CHR ''<'' \<or> c = cu CHR ''>'')] [] s))))
      | _ \<Rightarrow> toString H input)"

text \<open>
  The JavaScript build (\<^verbatim>\<open>src/unnamed/part_004\<close>) has the same chain of replacements for
  a string and returns an input that is not a string as it is, so that its result is a
  value and not always a string:
  \<^verbatim>\<open>
  static sanitizeInput(input) {
    if (typeof input !== 'string') { return input; }
    return input
      .replace(/[<>]/g, '') // Remove angle brackets
      .replace(/javascript:/gi, '') // Remove javascript: protocol
      .replace(/on\w+=/gi, '') // Remove event handlers
      .replace(/data:/gi, '') // Remove data: protocol
      .trim();
  }
  \<close>
\<close>

definition sanitizeInput_js :: "'n jsvalue \<Rightarrow> 'n jsvalue" where
  "sanitizeInput_js input =
     (case input of
        Str s \<Rightarrow>
          Str (trim
            (replace_all (lits_i ''data:'') []
              (replace_all (lits_i ''on'' @ [Plus isWordChar, One (\<lambda>c. c = cu CHR ''='')]) []
                (replace_all (lits_i ''javascript:'') []
                  (replace_all [One (\<lambda>c. c = cu CHR ''<'' \<or> c = cu CHR ''>'')] [] s)))))
      | _ \<Rightarrow> input)"

section \<open>SecurityManager: the rate limiter\<close>

text \<open>
  \<^verbatim>\<open>
  static createRateLimiter(maxCalls, timeWindow) {
    const calls = [];
    return function(fn) {
      const now = Date.now();
      while (calls.length > 0 && calls[0] < now - timeWindow) { calls.shift(); }
      if (calls.length >= maxCalls) { throw new Error('Rate limit exceeded'); }
      calls.push(now);
      return fn();
    };
  }
  \<close>
  The state of one limiter is its list \<open>calls\<close>. A call of the wrapper is given the
  clock reading \<open>now\<close> and the wrapped operation \<open>fn\<close>, which runs on a state \<open>'w\<close> of
  its own and yields a value of type \<open>'r\<close> (an exception of \<open>fn\<close> is such a value).
  \<open>Inl\<close> is the exception of the wrapper itself. \<open>evict\<close> is the \<^verbatim>\<open>while\<close> loop.
\<close>

fun evict :: "int \<Rightarrow> int \<Rightarrow> int list \<Rightarrow> int list" where
  "evict timeWindow now [] = []"
| "evict timeWindow now (t # calls) =
     (if t < now - timeWindow then evict timeWindow now calls else t # calls)"

definition rateLimiter_call ::
  "int \<Rightarrow> int \<Rightarrow> int \<Rightarrow> ('w \<Rightarrow> 'r \<times> 'w) \<Rightarrow> int list \<Rightarrow> 'w \<Rightarrow> (js_error + 'r) \<times> int list \<times> 'w" where
  "rateLimiter_call maxCalls timeWindow now fn calls w =
     (let calls1 = evict timeWindow now calls in
      if maxCalls \<le> int (length calls1) then (Inl (Error ''Rate limit exceeded''), calls1, w)
      else (case fn w of (r, w') \<Rightarrow> (Inr r, calls1 @ [now], w')))"

text \<open>Successive calls of one wrapper, at the clock readings \<open>ts\<close>.\<close>

fun rateLimiter_calls ::
  "int \<Rightarrow> int \<Rightarrow> ('w \<Rightarrow> 'r \<times> 'w) \<Rightarrow> int list \<Rightarrow> int list \<Rightarrow> 'w \<Rightarrow> (js_error + 'r) list \<times> int list \<times> 'w" where
  "rateLimiter_calls maxCalls timeWindow fn [] calls w = ([], calls, w)"
| "rateLimiter_calls maxCalls timeWindow fn (now # ts) calls w =
     (case rateLimiter_call maxCalls timeWindow now fn calls w of
        (r, calls1, w1) \<Rightarrow>
          (case rateLimiter_calls maxCalls timeWindow fn ts calls1 w1 of
             (rs, calls2, w2) \<Rightarrow> (r # rs, calls2, w2)))"

text \<open>Running the operation itself, with no limiter, once per element of a list.\<close>

fun run_each :: "('w \<Rightarrow> 'r \<times> 'w) \<Rightarrow> 'a list \<Rightarrow> 'w \<Rightarrow> 'r list \<times> 'w" where
  "run_each fn [] w = ([], w)"
| "run_each fn (x # xs) w =
     (case fn w of (r, w1) \<Rightarrow> (case run_each fn xs w1 of (rs, w2) \<Rightarrow> (r # rs, w2)))"


section \<open>SecureStorage\<close>

text \<open>
  The browser's \<^verbatim>\<open>localStorage\<close>: the stored pairs in insertion order; \<open>disabled\<close> when
  every access raises a security error; \<open>quota\<close>, the number of code units it can hold,
  beyond which \<^verbatim>\<open>setItem\<close> raises.
\<close>

record web_storage =
  items :: "(jsstring \<times> jsstring) list"
  disabled :: bool
  quota :: nat

definition storage_size :: "(jsstring \<times> jsstring) list \<Rightarrow> nat" where
  "storage_size kvs = sum_list (map (\<lambda>(k, v). length k + length v) kvs)"

definition ls_setItem :: "jsstring \<Rightarrow> jsstring \<Rightarrow> web_storage \<Rightarrow> js_error + web_storage" where
  "ls_setItem k v st =
     (if disabled st then Inl SecurityError
      else
        let items' =
          (if k \<in> fst ` set (items st)
           then map (\<lambda>(k', v'). if k' = k then (k', v) else (k', v')) (items st)
           else items st @ [(k, v)])
        in if quota st < storage_size items' then Inl QuotaExceededError
           else Inr (st\<lparr>items := items'\<rparr>))"

definition ls_getItem :: "jsstring \<Rightarrow> web_storage \<Rightarrow> js_error + jsstring option" where
  "ls_getItem k st = (if disabled st then Inl SecurityError else Inr (map_of (items st) k))"

definition ls_removeItem :: "jsstring \<Rightarrow> web_storage \<Rightarrow> js_error + web_storage" where
  "ls_removeItem k st =
     (if disabled st then Inl SecurityError
      else Inr (st\<lparr>items := filter (\<lambda>(k', v'). k' \<noteq> k) (items st)\<rparr>))"

definition ls_keys :: "web_storage \<Rightarrow> js_error + jsstring list" where
  "ls_keys st = (if disabled st then Inl SecurityError else Inr (map fst (items st)))"

text \<open>
  \<^verbatim>\<open>
  constructor(keyPrefix = 'quickmh_') {
    this.keyPrefix = keyPrefix;
    this.isAvailable = this.checkAvailability();
  }
  checkAvailability() {
    try {
      const test = '__storage_test__';
      localStorage.setItem(test, test);
      localStorage.removeItem(test);
      return true;
    } catch { return false; }
  }
  \<close>
\<close>

record SecureStorage =
  keyPrefix :: jsstring
  isAvailable :: bool

definition checkAvailability :: "web_storage \<Rightarrow> bool \<times> web_storage" where
  "checkAvailability st =
     (let test = js ''__storage_test__'' in
      case ls_setItem test test st of
        Inl err \<Rightarrow> (False, st)
      | Inr st1 \<Rightarrow>
          (case ls_removeItem test st1 of
             Inl err \<Rightarrow> (False, st1)
           | Inr st2 \<Rightarrow> (True, st2)))"

definition new_SecureStorage :: "jsstring \<Rightarrow> web_storage \<Rightarrow> SecureStorage \<times> web_storage" where
  "new_SecureStorage pfx st =
     (case checkAvailability st of
        (avail, st') \<Rightarrow> (\<lparr>keyPrefix = pfx, isAvailable = avail\<rparr>, st'))"

text \<open>\<^verbatim>\<open>encrypt\<close> and \<^verbatim>\<open>decrypt\<close>: XOR with the key \<^verbatim>\<open>'default'\<close>, then base64.
  \<^verbatim>\<open>encrypt\<close> raises when \<^verbatim>\<open>JSON.stringify\<close> yields \<^verbatim>\<open>undefined\<close> or \<^verbatim>\<open>btoa\<close> rejects
  its argument; \<^verbatim>\<open>decrypt\<close> catches and returns \<^verbatim>\<open>null\<close> (\<open>None\<close>).\<close>

definition xor_key :: "jsstring \<Rightarrow> jsstring \<Rightarrow> jsstring" where
  "xor_key key s = map (\<lambda>(i, c). c XOR key ! (i mod length key)) (zip [0..<length s] s)"

definition encrypt :: "'n host \<Rightarrow> 'n jsvalue \<Rightarrow> js_error + jsstring" where
  "encrypt H data =
     (case (case data of Str s \<Rightarrow> Some s | _ \<Rightarrow> JSON_stringify H data) of
        None \<Rightarrow> Inl TypeError
      | Some dataStr \<Rightarrow>
          (case btoa H (xor_key (js ''default'') dataStr) of
             None \<Rightarrow> Inl InvalidCharacterError
           | Some b \<Rightarrow> Inr b))"

definition decrypt :: "'n host \<Rightarrow> jsstring \<Rightarrow> jsstring option" where
  "decrypt H encryptedData =
     (case atob H encryptedData of
        None \<Rightarrow> None
      | Some data \<Rightarrow> Some (xor_key (js ''default'') data))"

text \<open>
  \<^verbatim>\<open>
  setItem(key, value, encrypt = false) {
    if (!this.isAvailable) { throw new Error('Storage not available'); }
    const fullKey = this.keyPrefix + key;
    let dataToStore;
    if (encrypt) { dataToStore = this.encrypt(value); }
    else if (typeof value !== 'string') { dataToStore = JSON.stringify(value); }
    else { dataToStore = value; }
    try { localStorage.setItem(fullKey, dataToStore); return true; }
    catch (error) { console.error('Failed to store data:', error); return false; }
  }
  \<close>
  The result is \<open>Inl\<close> for an exception that leaves \<^verbatim>\<open>setItem\<close>, and otherwise the
  returned boolean with the store after the call.
\<close>

definition setItem ::
  "'n host \<Rightarrow> SecureStorage \<Rightarrow> jsstring \<Rightarrow> 'n jsvalue \<Rightarrow> bool \<Rightarrow> web_storage
     \<Rightarrow> js_error + bool \<times> web_storage" where
  "setItem H self key val enc st =
     (if \<not> isAvailable self then Inl (Error ''Storage not available'')
      else
        let fullKey = keyPrefix self @ key in
        case (if enc then encrypt H val
              else (case val of
                      Str s \<Rightarrow> Inr s
                    | _ \<Rightarrow> Inr (case JSON_stringify H val of
                                  Some s \<Rightarrow> s
                                | None \<Rightarrow> js ''undefined''))) of
          Inl err \<Rightarrow> Inl err
        | Inr dataToStore \<Rightarrow>
            (case ls_setItem fullKey dataToStore st of
               Inr st' \<Rightarrow> Inr (True, st')
             | Inl err \<Rightarrow> Inr (False, st)))"

text \<open>\<^verbatim>\<open>getItem(key, decrypt = false)\<close> returns \<^verbatim>\<open>null\<close> when the adapter is unavailable,
  the key is missing, the store raises or the value cannot be decrypted; it parses the
  value as JSON and falls back to the raw string. It never writes.\<close>

definition getItem :: "'n host \<Rightarrow> SecureStorage \<Rightarrow> jsstring \<Rightarrow> bool \<Rightarrow> web_storage \<Rightarrow> 'n jsvalue" where
  "getItem H self key dec st =
     (if \<not> isAvailable self then Null
      else
        let fullKey = keyPrefix self @ key in
        case ls_getItem fullKey st of
          Inl err \<Rightarrow> Null
        | Inr None \<Rightarrow> Null
        | Inr (Some v) \<Rightarrow>
            if dec then
              (case decrypt H v of
                 None \<Rightarrow> Null
               | Some decrypted \<Rightarrow>
                   (case JSON_parse H decrypted of Some parsed \<Rightarrow> parsed | None \<Rightarrow> Str decrypted))
            else (case JSON_parse H v of Some parsed \<Rightarrow> parsed | None \<Rightarrow> Str v))"

text \<open>\<^verbatim>\<open>removeItem(key)\<close> and \<^verbatim>\<open>clear()\<close> return \<^verbatim>\<open>false\<close> at once when
  \<^verbatim>\<open>!this.isAvailable\<close>, and catch what the store raises.\<close>

definition removeItem :: "SecureStorage \<Rightarrow> jsstring \<Rightarrow> web_storage \<Rightarrow> bool \<times> web_storage" where
  "removeItem self key st =
     (if \<not> isAvailable self then (False, st)
      else
        let fullKey = keyPrefix self @ key in
        case ls_removeItem fullKey st of
          Inr st' \<Rightarrow> (True, st')
        | Inl err \<Rightarrow> (False, st))"

fun remove_keys :: "jsstring list \<Rightarrow> web_storage \<Rightarrow> bool \<times> web_storage" where
  "remove_keys [] st = (True, st)"
| "remove_keys (k # ks) st =
     (case ls_removeItem k st of
        Inl err \<Rightarrow> (False, st)
      | Inr st' \<Rightarrow> remove_keys ks st')"

definition clear :: "SecureStorage \<Rightarrow> web_storage \<Rightarrow> bool \<times> web_storage" where
  "clear self st =
     (if \<not> isAvailable self then (False, st)
      else
        case ls_keys st of
          Inl err \<Rightarrow> (False, st)
        | Inr keys \<Rightarrow>
            remove_keys (filter (\<lambda>k. k \<noteq> [] \<and> prefix (keyPrefix self) k) keys) st)"

section \<open>RetryHandler\<close>

text \<open>
  \<^verbatim>\<open>
  static async withRetry(operation, maxRetries = 3, delay = 1000) {
    let lastError;
    for (let attempt = 1; attempt <= maxRetries; attempt++) {
      try { return await operation(); }
      catch (error) {
        lastError = error;
        if (attempt === maxRetries) { throw error; }
        const waitTime = delay * Math.pow(2, attempt - 1);
        await new Promise(resolve => setTimeout(resolve, waitTime));
      }
    }
    throw lastError;
  }
  \<close>
  The operation runs on a state \<open>'s\<close> and either fails with an \<open>'e\<close> or returns an \<open>'a\<close>.
  The model returns what \<^verbatim>\<open>withRetry\<close> returns or throws (\<open>Inl None\<close> is the throw of
  the unassigned \<^verbatim>\<open>lastError\<close>), the final state, and the trace of invocations and waits.
\<close>

datatype effect = Invoked | Waited int

function withRetry_loop ::
  "('s \<Rightarrow> ('e + 'a) \<times> 's) \<Rightarrow> int \<Rightarrow> int \<Rightarrow> int \<Rightarrow> 'e option \<Rightarrow> 's \<Rightarrow> effect list
     \<Rightarrow> ('e option + 'a) \<times> 's \<times> effect list" where
  "withRetry_loop operation maxRetries delay attempt lastError s tr =
     (if attempt \<le> maxRetries then
        (case operation s of
           (Inr v, s') \<Rightarrow> (Inr v, s', tr @ [Invoked])
         | (Inl err, s') \<Rightarrow>
             if attempt = maxRetries then (Inl (Some err), s', tr @ [Invoked])
             else withRetry_loop operation maxRetries delay (attempt + 1) (Some err) s'
                    (tr @ [Invoked, Waited (delay * 2 ^ nat (attempt - 1))]))
      else (Inl lastError, s, tr))"
  by pat_completeness auto
termination
  by (relation "measure (\<lambda>(operation, maxRetries, delay, attempt, lastError, s, tr).
        nat (maxRetries + 1 - attempt))") auto

declare withRetry_loop.simps [simp del]

definition withRetry ::
  "('s \<Rightarrow> ('e + 'a) \<times> 's) \<Rightarrow> int \<Rightarrow> int \<Rightarrow> 's \<Rightarrow> ('e option + 'a) \<times> 's \<times> effect list" where
  "withRetry operation maxRetries delay s = withRetry_loop operation maxRetries delay 1 None s []"

text \<open>The state in which the operation is invoked for the \<open>k+1\<close>-th time, and what that
  invocation yields.\<close>

definition state_before :: "('s \<Rightarrow> ('e + 'a) \<times> 's) \<Rightarrow> nat \<Rightarrow> 's \<Rightarrow> 's" where
  "state_before operation k s = ((\<lambda>x. snd (operation x)) ^^ k) s"

definition outcome :: "('s \<Rightarrow> ('e + 'a) \<times> 's) \<Rightarrow> nat \<Rightarrow> 's \<Rightarrow> 'e + 'a" where
  "outcome operation k s = fst (operation (state_before operation k s))"

text \<open>What the specification describes: \<open>j\<close> invocations, and between the \<open>k\<close>-th and the
  next one a wait of \<open>delay * 2^(k-1)\<close>.\<close>

definition backoff_trace :: "int \<Rightarrow> nat \<Rightarrow> effect list" where
  "backoff_trace delay j =
     concat (map (\<lambda>k. [Invoked, Waited (delay * 2 ^ (k - 1))]) [1..<j]) @ [Invoked]"

section \<open>Validator and FormValidator\<close>

text \<open>
  \<^verbatim>\<open>
  static isRequired(value) { return value !== null && value !== undefined && value !== ''; }
  static isNumber(value) { return !isNaN(value) && !isNaN(parseFloat(value)); }
  static isDate(value) { const date = new Date(value); return date instanceof Date && !isNaN(date); }
  static maxLength(value, max) { return typeof value === 'string' && value.length <= max; }
  \<close>
\<close>

definition isRequired :: "'n jsvalue \<Rightarrow> bool" where
  "isRequired v \<longleftrightarrow> v \<noteq> Null \<and> v \<noteq> Undefined \<and> v \<noteq> Str []"

definition isNumber :: "'n host \<Rightarrow> 'n jsvalue \<Rightarrow> bool" where
  "isNumber H v \<longleftrightarrow> \<not> isNaN H v \<and> \<not> Number_isNaN H (parseFloat H (toString H v))"

definition isDate :: "'n host \<Rightarrow> 'n jsvalue \<Rightarrow> bool" where
  "isDate H v \<longleftrightarrow> Date_isValid H v"

definition maxLength :: "'n jsvalue \<Rightarrow> nat \<Rightarrow> bool" where
  "maxLength v m \<longleftrightarrow> (case v of Str s \<Rightarrow> length s \<le> m | _ \<Rightarrow> False)"

text \<open>
  A rule is \<^verbatim>\<open>{ validate, message }\<close>; \<open>check\<close> is its \<^verbatim>\<open>validate\<close> function, \<open>None\<close>
  when it throws. The rules of a \<^verbatim>\<open>FormValidator\<close> are a \<^verbatim>\<open>Map\<close>, kept here in insertion
  order; \<^verbatim>\<open>addRule\<close> is \<^verbatim>\<open>this.rules.set(field, validators)\<close>.
\<close>

record 'n validator =
  check :: "'n jsvalue \<Rightarrow> bool option"
  message :: string

type_synonym 'n rules = "(string \<times> 'n validator list) list"

definition addRule :: "string \<Rightarrow> 'n validator list \<Rightarrow> 'n rules \<Rightarrow> 'n rules" where
  "addRule field validators rules =
     (if field \<in> fst ` set rules
      then map (\<lambda>(f, vs). if f = field then (f, validators) else (f, vs)) rules
      else rules @ [(field, validators)])"

text \<open>
  \<^verbatim>\<open>
  validate(data) {
    const errors = {};
    let isValid = true;
    for (const [field, validators] of this.rules) {
      const value = data[field];
      const fieldErrors = [];
      for (const validator of validators) {
        try {
          if (!validator.validate(value)) { fieldErrors.push(validator.message); isValid = false; ... }
        } catch (error) { fieldErrors.push('Validation error occurred'); isValid = false; ... }
      }
      if (fieldErrors.length > 0) { errors[field] = fieldErrors; }
    }
    return { isValid, errors };
  }
  \<close>
  The elided statements write to the error log, which \<^verbatim>\<open>validate\<close> never reads; the log
  is not part of the model.
\<close>

fun fieldErrors :: "'n validator list \<Rightarrow> 'n jsvalue \<Rightarrow> string list" where
  "fieldErrors [] v = []"
| "fieldErrors (validator # validators) v =
     (case check validator v of
        Some True \<Rightarrow> fieldErrors validators v
      | Some False \<Rightarrow> message validator # fieldErrors validators v
      | None \<Rightarrow> ''Validation error occurred'' # fieldErrors validators v)"

record validation =
  isValid :: bool
  errors :: "(string \<times> string list) list"

fun validate_fields ::
  "'n rules \<Rightarrow> (string \<Rightarrow> 'n jsvalue) \<Rightarrow> validation \<Rightarrow> validation" where
  "validate_fields [] data acc = acc"
| "validate_fields ((field, validators) # rules) data acc =
     (let errs = fieldErrors validators (data field) in
      validate_fields rules data
        (if errs \<noteq> [] then \<lparr>isValid = False, errors = errors acc @ [(field, errs)]\<rparr> else acc))"

definition validate :: "'n rules \<Rightarrow> (string \<Rightarrow> 'n jsvalue) \<Rightarrow> validation" where
  "validate rules data = validate_fields rules data \<lparr>isValid = True, errors = []\<rparr>"

text \<open>The rule builders \<^verbatim>\<open>required\<close>, \<^verbatim>\<open>number\<close>, \<^verbatim>\<open>maxLength\<close>, \<^verbatim>\<open>date\<close> and
  \<^verbatim>\<open>custom\<close>.\<close>

definition required :: "string \<Rightarrow> 'n validator" where
  "required msg = \<lparr>check = (\<lambda>v. Some (isRequired v)), message = msg\<rparr>"

definition number :: "'n host \<Rightarrow> string \<Rightarrow> 'n validator" where
  "number H msg = \<lparr>check = (\<lambda>v. Some (isNumber H v)), message = msg\<rparr>"

definition maxLength_rule :: "nat \<Rightarrow> string \<Rightarrow> 'n validator" where
  "maxLength_rule m msg = \<lparr>check = (\<lambda>v. Some (maxLength v m)), message = msg\<rparr>"

definition date_rule :: "'n host \<Rightarrow> string \<Rightarrow> 'n validator" where
  "date_rule H msg = \<lparr>check = (\<lambda>v. Some (isDate H v)), message = msg\<rparr>"

definition custom :: "('n jsvalue \<Rightarrow> bool option) \<Rightarrow> string \<Rightarrow> 'n validator" where
  "custom validateFn msg = \<lparr>check = validateFn, message = msg\<rparr>"

section \<open>The assessment catalog\<close>

text \<open>
  \<^verbatim>\<open>translations[lang].domains\<close>: the keys of the catalog, each with its \<^verbatim>\<open>scoreRange\<close>
  (the Persian ranges are written in the digits U+06F0 to U+06F9).
  \<open>hasOwnDomain\<close> is
  \<^verbatim>\<open>Object.prototype.hasOwnProperty.call(translations.en.domains, value)\<close>, which converts
  \<open>value\<close> to a property key. A plain property read \<^verbatim>\<open>translations.en.domains[key]\<close> also
  finds what every object inherits: \<open>object_prototype_keys\<close>.
\<close>

datatype language = En | Fa

definition domains :: "language \<Rightarrow> (jsstring \<times> jsstring) list" where
  "domains lang =
     (case lang of
        En \<Rightarrow>
          [(js ''phq-9'', js ''0-27''), (js ''gad-7'', js ''0-21''), (js ''aaq-ii'', js ''7-49''),
           (js ''oci-r'', js ''0-72''), (js ''rosenberg'', js ''0-30''),
           (js ''maslach'', js ''Varies by subscale''), (js ''procrastination'', js ''12-60'')]
      | Fa \<Rightarrow>
          [(js ''phq-9'', [0x6F0, 0x2D, 0x6F2, 0x6F7]), (js ''gad-7'', [0x6F0, 0x2D, 0x6F2, 0x6F1]),
           (js ''aaq-ii'', [0x6F7, 0x2D, 0x6F4, 0x6F9]), (js ''oci-r'', [0x6F0, 0x2D, 0x6F7, 0x6F2]),
           (js ''rosenberg'', [0x6F0, 0x2D, 0x6F3, 0x6F0]),
           (js ''maslach'',
              [0x645, 0x62A, 0x63A, 0x6CC, 0x631, 0x20, 0x628, 0x631, 0x20, 0x627, 0x633, 0x627,
               0x633, 0x20, 0x632, 0x6CC, 0x631, 0x645, 0x642, 0x6CC, 0x627, 0x633]),
           (js ''procrastination'', [0x6F1, 0x6F2, 0x2D, 0x6F6, 0x6F0])])"

definition hasOwnDomain :: "'n host \<Rightarrow> 'n jsvalue \<Rightarrow> bool" where
  "hasOwnDomain H v \<longleftrightarrow> toString H v \<in> fst ` set (domains En)"

definition object_prototype_keys :: "jsstring list" where
  "object_prototype_keys =
     [js ''constructor'', js ''__defineGetter__'', js ''__defineSetter__'', js ''hasOwnProperty'',
      js ''__lookupGetter__'', js ''__lookupSetter__'', js ''isPrototypeOf'',
      js ''propertyIsEnumerable'', js ''toString'', js ''valueOf'', js ''__proto__'',
      js ''toLocaleString'']"

section \<open>SecurityManager: the denylist\<close>

text \<open>
  \<^verbatim>\<open>
  static containsMaliciousContent(text) {
    if (typeof text !== 'string') { return false; }
    const maliciousPatterns = [
      /<script[\s\S]*?>[\s\S]*?<\/script>/gi, /javascript:/gi, /on\w+\s*=/gi,
      /<iframe[\s\S]*?>/gi, /<object[\s\S]*?>/gi, /<embed[\s\S]*?>/gi, /<form[\s\S]*?>/gi,
      /eval\s*\(/gi, /function\s*\(/gi, /setTimeout\s*\(/gi, /setInterval\s*\(/gi
    ];
    return maliciousPatterns.some(pattern => pattern.test(text));
  }
  \<close>
  The patterns are created anew at each call, so every \<^verbatim>\<open>test\<close> starts at index 0.
\<close>

definition anychar :: "jschar \<Rightarrow> bool" where
  "anychar c = True"

definition maliciousPatterns :: "atom list list" where
  "maliciousPatterns =
     [lits_i ''<script'' @ [LazyStar anychar, One (\<lambda>c. c = cu CHR ''>''), LazyStar anychar]
        @ lits_i ''</script>'',
      lits_i ''javascript:'',
      lits_i ''on'' @ [Plus isWordChar, Star isWhiteSpace, One (\<lambda>c. c = cu CHR ''='')],
      lits_i ''<iframe'' @ [LazyStar anychar, One (\<lambda>c. c = cu CHR ''>'')],
      lits_i ''<object'' @ [LazyStar anychar, One (\<lambda>c. c = cu CHR ''>'')],
      lits_i ''<embed'' @ [LazyStar anychar, One (\<lambda>c. c = cu CHR ''>'')],
      lits_i ''<form'' @ [LazyStar anychar, One (\<lambda>c. c = cu CHR ''>'')],
      lits_i ''eval'' @ [Star isWhiteSpace, One (\<lambda>c. c = cu CHR ''('')],
      lits_i ''function'' @ [Star isWhiteSpace, One (\<lambda>c. c = cu CHR ''('')],
      lits_i ''setTimeout'' @ [Star isWhiteSpace, One (\<lambda>c. c = cu CHR ''('')],
      lits_i ''setInterval'' @ [Star isWhiteSpace, One (\<lambda>c. c = cu CHR ''('')]]"

definition containsMaliciousContent :: "'n jsvalue \<Rightarrow> bool" where
  "containsMaliciousContent text =
     (case text of
        Str s \<Rightarrow> list_ex (\<lambda>pattern. regex_test pattern s) maliciousPatterns
      | _ \<Rightarrow> False)"

section \<open>The entry validator\<close>

text \<open>
  \<^verbatim>\<open>
  setupFormValidation() {
    this.entryValidator = new FormValidator(this.errorHandler);
    this.entryValidator.addRule('id', [FormValidator.required('Entry ID is required')]);
    this.entryValidator.addRule('date', [FormValidator.required('Date is required'),
      FormValidator.date('Please enter a valid date')]);
    this.entryValidator.addRule('domainKey', [FormValidator.required('Assessment type is required'),
      FormValidator.custom(
        (value) => Object.prototype.hasOwnProperty.call(translations.en.domains, value),
        'Invalid assessment type')]);
    this.entryValidator.addRule('score', [FormValidator.required('Score is required'),
      FormValidator.number('Score must be a number')]);
    this.entryValidator.addRule('note', [
      FormValidator.maxLength(1000, 'Note must not exceed 1000 characters'),
      FormValidator.custom(
        (value) => { if (!value) {return true;} return !SecurityManager.containsMaliciousContent(value); },
        'Note contains potentially unsafe content')]);
  }
  \<close>
  \<open>field e name\<close> is the property read \<^verbatim>\<open>entry[name]\<close>, and \<open>validateEntry\<close> is
  \<^verbatim>\<open>this.entryValidator.validate(entry)\<close>.
\<close>

definition setupFormValidation :: "'n host \<Rightarrow> 'n rules" where
  "setupFormValidation H =
     addRule ''note''
       [maxLength_rule 1000 ''Note must not exceed 1000 characters'',
        custom (\<lambda>v. if \<not> truthy H v then Some True else Some (\<not> containsMaliciousContent v))
          ''Note contains potentially unsafe content'']
    (addRule ''score''
       [required ''Score is required'', number H ''Score must be a number'']
    (addRule ''domainKey''
       [required ''Assessment type is required'',
        custom (\<lambda>v. Some (hasOwnDomain H v)) ''Invalid assessment type'']
    (addRule ''date''
       [required ''Date is required'', date_rule H ''Please enter a valid date'']
    (addRule ''id''
       [required ''Entry ID is required'']
     []))))"

definition field :: "'n entry \<Rightarrow> string \<Rightarrow> 'n jsvalue" where
  "field e name =
     (if name = ''id'' then e_id e
      else if name = ''date'' then e_date e
      else if name = ''domainKey'' then e_domainKey e
      else if name = ''score'' then e_score e
      else if name = ''note'' then e_note e
      else Undefined)"

definition validateEntry :: "'n host \<Rightarrow> 'n entry \<Rightarrow> validation" where
  "validateEntry H e = validate (setupFormValidation H) (field e)"


section \<open>CSV export\<close>

text \<open>
  \<^verbatim>\<open>
  sanitizeCSVValue(value) {
    if (value === null || value === undefined) {return '';}
    const str = String(value);
    return str.replace(/[\r\n\t]/g, ' ').trim();
  }
  escapeCSV(str) { return `"${(str || '').replace(/"/g, '""')}"`; }
  \<close>
  \<^verbatim>\<open>escapeCSV\<close> raises a type error on a truthy value that is not a string (it has no
  \<^verbatim>\<open>replace\<close>).
\<close>

definition sanitizeCSVValue :: "'n host \<Rightarrow> 'n jsvalue \<Rightarrow> jsstring" where
  "sanitizeCSVValue H v =
     (case v of
        Null \<Rightarrow> []
      | Undefined \<Rightarrow> []
      | _ \<Rightarrow>
          trim (replace_all [One (\<lambda>c. c = 0x0D \<or> c = 0x0A \<or> c = 0x09)] (js '' '') (toString H v)))"

definition escapeCSV :: "'n host \<Rightarrow> 'n jsvalue \<Rightarrow> js_error + jsstring" where
  \<open>escapeCSV H str =
     (case (if truthy H str then str else Str []) of
        Str s \<Rightarrow> Inr (js ''"'' @ replace_all (lits ''"'') (js ''""'') s @ js ''"'')
      | _ \<Rightarrow> Inl TypeError)\<close>

text \<open>
  \<^verbatim>\<open>
  exportToCSV() {
    try {
      if (this.entries.length === 0) { ...; return false; }
      const headers = ['id', 'date', 'domainKey', 'score', 'note'];
      const csvRows = [headers.join(',')];
      const validEntries = this.entries.filter(entry => {
        try { return this.entryValidator.validate(entry).isValid; } catch { return false; } });
      ...
      validEntries.forEach((entry) => {
        const row = [this.sanitizeCSVValue(entry.id), this.sanitizeCSVValue(entry.date),
          this.sanitizeCSVValue(entry.domainKey), this.sanitizeCSVValue(entry.score),
          this.escapeCSV(entry.note || '')].join(',');
        csvRows.push(row);
      });
      const csvContent = csvRows.join('\n');
      const blob = new Blob([`\uFEFF${ csvContent}`], { type: 'text/csv;charset=utf-8;' });
      ...
      return true;
    } catch (error) { ...; return false; }
  }
  \<close>
  \<open>exportToCSV\<close> is \<open>None\<close> when the method returns \<^verbatim>\<open>false\<close> (nothing is written), and
  otherwise the text of the file it offers for download.
\<close>

definition csv_row :: "'n host \<Rightarrow> 'n entry \<Rightarrow> js_error + jsstring" where
  "csv_row H e =
     (case escapeCSV H (if truthy H (e_note e) then e_note e else Str []) of
        Inl err \<Rightarrow> Inl err
      | Inr quoted \<Rightarrow>
          Inr (join (js '','')
                [sanitizeCSVValue H (e_id e), sanitizeCSVValue H (e_date e),
                 sanitizeCSVValue H (e_domainKey e), sanitizeCSVValue H (e_score e), quoted]))"

fun csv_rows :: "'n host \<Rightarrow> 'n entry list \<Rightarrow> js_error + jsstring list" where
  "csv_rows H [] = Inr []"
| "csv_rows H (e # es) =
     (case csv_row H e of
        Inl err \<Rightarrow> Inl err
      | Inr row \<Rightarrow> (case csv_rows H es of Inl err \<Rightarrow> Inl err | Inr rows \<Rightarrow> Inr (row # rows)))"

definition exportToCSV :: "'n host \<Rightarrow> 'n entry list \<Rightarrow> jsstring option" where
  "exportToCSV H entries =
     (if entries = [] then None
      else
        let headers = [js ''id'', js ''date'', js ''domainKey'', js ''score'', js ''note''];
            validEntries = filter (\<lambda>e. isValid (validateEntry H e)) entries
        in case csv_rows H validEntries of
             Inl err \<Rightarrow> None
           | Inr rows \<Rightarrow> Some (0xFEFF # join (js [CHR 0x0A]) (join (js '','') headers # rows)))"

section \<open>CSV import\<close>

text \<open>
  \<^verbatim>\<open>
  parseCSVRow(rowStr) {
    const parts = rowStr.split(',');
    return [parts[0]?.trim(), parts[1]?.trim(), parts[2]?.trim(), parts[3]?.trim(),
            parts.slice(4).join(',').trim()];
  }
  isValidImportRow(id, date, domainKey, score, note) {
    return id && date && domainKey && score && note !== undefined &&
           translations.en.domains[domainKey] && !isNaN(Number(score));
  }
  \<close>
  \<open>split\<close> is \<^verbatim>\<open>String.prototype.split\<close> with a separator of one code unit. A column
  that the row does not have is \<^verbatim>\<open>undefined\<close> (\<open>None\<close>), which \<^verbatim>\<open>isValidImportRow\<close>
  rejects; the fifth component is always a string.
\<close>

fun split :: "jschar \<Rightarrow> jsstring \<Rightarrow> jsstring list" where
  "split sep [] = [[]]"
| "split sep (c # s) =
     (if c = sep then [] # split sep s
      else (case split sep s of p # ps \<Rightarrow> (c # p) # ps | [] \<Rightarrow> [[c]]))"

definition part :: "jsstring list \<Rightarrow> nat \<Rightarrow> jsstring option" where
  "part parts i = (if i < length parts then Some (trim (parts ! i)) else None)"

definition parseCSVRow ::
  "jsstring \<Rightarrow> jsstring option \<times> jsstring option \<times> jsstring option \<times> jsstring option \<times> jsstring" where
  "parseCSVRow rowStr =
     (let parts = split (cu CHR '','') rowStr in
      (part parts 0, part parts 1, part parts 2, part parts 3,
       trim (join (js '','') (drop 4 parts))))"

definition isValidImportRow ::
  "'n host \<Rightarrow> jsstring \<Rightarrow> jsstring \<Rightarrow> jsstring \<Rightarrow> jsstring \<Rightarrow> jsstring \<Rightarrow> bool" where
  "isValidImportRow H rid rdate rdomainKey rscore rnote \<longleftrightarrow>
     rid \<noteq> [] \<and> rdate \<noteq> [] \<and> rdomainKey \<noteq> [] \<and> rscore \<noteq> []
     \<and> rdomainKey \<in> fst ` set (domains En) \<union> set object_prototype_keys
     \<and> \<not> Number_isNaN H (StringToNumber H rscore)"

text \<open>
  \<^verbatim>\<open>note ? note.replace(/^"|"$/g, '').replace(/""/g, '"') : ''\<close>: the first replacement
  removes a quote at the very start and, from what is left, a quote at the very end.
\<close>

definition strip_wrapping_quotes :: "jsstring \<Rightarrow> jsstring" where
  \<open>strip_wrapping_quotes s =
     (let s1 = (case s of c # r \<Rightarrow> if c = cu CHR ''"'' then r else s | [] \<Rightarrow> [])
      in if s1 \<noteq> [] \<and> last s1 = cu CHR ''"'' then butlast s1 else s1)\<close>

definition unquote_note :: "jsstring \<Rightarrow> jsstring" where
  \<open>unquote_note rnote =
     (if rnote \<noteq> []
      then replace_all (lits ''""'') (js ''"'') (strip_wrapping_quotes rnote)
      else [])\<close>

text \<open>
  The body of the loop over the rows, in the handler \<^verbatim>\<open>reader.onload\<close> of
  \<^verbatim>\<open>importFromCSV\<close>:
  \<^verbatim>\<open>
  if (!rowStr.trim()) {return;}
  const [id, date, domainKey, score, note] = this.parseCSVRow(rowStr);
  if (this.isValidImportRow(id, date, domainKey, score, note)) {
    if (!this.entries.some((entry) => entry.id === id)) {
      const newEntry = { id, date, domainKey, score: Number(score),
        note: note ? note.replace(/^"|"$/g, '').replace(/""/g, '"') : '' };
      const validation = this.entryValidator.validate(newEntry);
      if (validation.isValid) { this.entries.push(newEntry); importedCount++; }
      else { skippedCount++; }
    } else { skippedCount++; }
  } else { skippedCount++; }
  \<close>
  \<^verbatim>\<open>entry.id === id\<close> compares with a string, so it holds exactly for the entries whose
  id is that string.
\<close>

datatype 'n row_result = BlankRow | SkippedRow | ImportedRow "'n entry"

definition import_row :: "'n host \<Rightarrow> 'n entry list \<Rightarrow> jsstring \<Rightarrow> 'n row_result" where
  "import_row H entries rowStr =
     (if trim rowStr = [] then BlankRow
      else
        case parseCSVRow rowStr of
          (Some rid, Some rdate, Some rdomainKey, Some rscore, rnote) \<Rightarrow>
            if isValidImportRow H rid rdate rdomainKey rscore rnote then
              if \<not> (\<exists>e \<in> set entries. e_id e = Str rid) then
                let newEntry =
                     \<lparr>e_id = Str rid, e_date = Str rdate, e_domainKey = Str rdomainKey,
                      e_score = Num (StringToNumber H rscore),
                      e_note = Str (unquote_note rnote)\<rparr>
                in if isValid (validateEntry H newEntry) then ImportedRow newEntry else SkippedRow
              else SkippedRow
            else SkippedRow
        | _ \<Rightarrow> SkippedRow)"

text \<open>
  \<^verbatim>\<open>
  const text = e.target.result;
  if (!text || text.trim().length === 0) { this.showToast('File appears to be empty', 'error'); return; }
  const rows = text.split('\n').slice(1); // Skip header
  let importedCount = 0;
  let skippedCount = 0;
  const maxImportRows = 10000; // Safety limit
  rows.slice(0, maxImportRows).forEach((rowStr, index) => { ... });
  ...
  this.saveEntries();
  this.renderHistoryTable();
  \<close>
  \<^verbatim>\<open>renderHistoryTable\<close> begins with \<^verbatim>\<open>this.sortEntries()\<close>, which sorts \<^verbatim>\<open>this.entries\<close>
  in place; this is its only effect on the collection. \<open>importCSVText\<close> is \<open>None\<close> when
  the handler returns before the loop, and otherwise the collection and the two counters
  it reports. \<open>importFromCSV\<close> adds the checks on the file that precede reading it.
\<close>

fun import_rows ::
  "'n host \<Rightarrow> jsstring list \<Rightarrow> 'n entry list \<times> nat \<times> nat \<Rightarrow> 'n entry list \<times> nat \<times> nat" where
  "import_rows H [] acc = acc"
| "import_rows H (rowStr # rows) (entries, importedCount, skippedCount) =
     import_rows H rows
       (case import_row H entries rowStr of
          BlankRow \<Rightarrow> (entries, importedCount, skippedCount)
        | SkippedRow \<Rightarrow> (entries, importedCount, skippedCount + 1)
        | ImportedRow newEntry \<Rightarrow> (entries @ [newEntry], importedCount + 1, skippedCount))"

definition maxImportRows :: nat where
  "maxImportRows = 10000"

definition importCSVText ::
  "'n host \<Rightarrow> jsstring \<Rightarrow> 'n entry list \<Rightarrow> ('n entry list \<times> nat \<times> nat) option" where
  "importCSVText H text entries =
     (if text = [] \<or> trim text = [] then None
      else
        let rows = tl (split 0x0A text) in
        case import_rows H (take maxImportRows rows) (entries, 0, 0) of
          (entries', importedCount, skippedCount) \<Rightarrow>
            Some (Array_sort H entries', importedCount, skippedCount))"

record csv_file =
  file_name :: jsstring
  file_size :: nat
  file_text :: "jsstring option"

definition toLowerCase_ascii :: "jsstring \<Rightarrow> jsstring" where
  "toLowerCase_ascii s = map (\<lambda>c. if 0x41 \<le> c \<and> c \<le> 0x5A then c + 0x20 else c) s"

definition importFromCSV ::
  "'n host \<Rightarrow> csv_file option \<Rightarrow> 'n entry list \<Rightarrow> ('n entry list \<times> nat \<times> nat) option" where
  "importFromCSV H file entries =
     (case file of
        None \<Rightarrow> None
      | Some f \<Rightarrow>
          if \<not> suffix (js ''.csv'') (toLowerCase_ascii (file_name f)) then None
          else if 10 * 1024 * 1024 < file_size f then None
          else (case file_text f of None \<Rightarrow> None | Some text \<Rightarrow> importCSVText H text entries))"

section \<open>addEntry and deleteEntry\<close>

text \<open>
  \<^verbatim>\<open>
  validateScoreRange(score, scoreRange) {
    if (!scoreRange || typeof score !== 'number') {return false;}
    const normalizedRange = scoreRange.replace(/[\u06F0-\u06F9]/g, (d) => '...'.indexOf(d).toString());
    const rangeParts = normalizedRange.split('-');
    if (rangeParts.length !== 2) {return true;}
    const min = parseInt(rangeParts[0]);
    const max = parseInt(rangeParts[1]);
    if (isNaN(min) || isNaN(max)) {return true;}
    return score >= min && score <= max;
  }
  addEntry(entry) {
    const validation = this.entryValidator.validate(entry);
    if (!validation.isValid) { ...; return false; }
    const domain = translations[this.currentLanguage]?.domains?.[entry.domainKey];
    if (domain && !this.validateScoreRange(entry.score, domain.scoreRange)) { ...; return false; }
    this.entries.push(entry);
    this.saveEntries();
    this.renderHistoryTable();
    ...
    return true;
  }
  deleteEntry(id) {
    if (!id) { throw new Error('Entry ID is required for deletion'); }   // caught: return false
    const initialLength = this.entries.length;
    this.entries = this.entries.filter((entry) => entry.id !== id);
    if (this.entries.length < initialLength) {
      this.saveEntries(); this.renderHistoryTable(); ...; return true;
    }
    ...; return false;
  }
  \<close>
  The string in \<^verbatim>\<open>'...'.indexOf(d)\<close> holds the ten Persian digits in order. An entry
  that has passed validation has a \<^verbatim>\<open>domainKey\<close> of the catalog, so the lookup of
  \<open>domain\<close> reads the table. Two arrays are never \<^verbatim>\<open>===\<close> here: each \<open>Arr\<close> stands for
  an object of its own.
\<close>

definition normalize_digits :: "jsstring \<Rightarrow> jsstring" where
  "normalize_digits s = map (\<lambda>c. if 0x6F0 \<le> c \<and> c \<le> 0x6F9 then c - 0x6F0 + 0x30 else c) s"

definition validateScoreRange :: "'n host \<Rightarrow> 'n jsvalue \<Rightarrow> jsstring option \<Rightarrow> bool" where
  "validateScoreRange H sc scoreRange =
     (case (scoreRange, sc) of
        (Some rng, Num n) \<Rightarrow>
          if rng = [] then False
          else
            let rangeParts = split (cu CHR ''-'') (normalize_digits rng) in
            if length rangeParts \<noteq> 2 then True
            else
              let lo = parseInt H (rangeParts ! 0); hi = parseInt H (rangeParts ! 1) in
              if Number_isNaN H lo \<or> Number_isNaN H hi then True
              else Number_le H lo n \<and> Number_le H n hi
      | _ \<Rightarrow> False)"

definition addEntry :: "'n host \<Rightarrow> language \<Rightarrow> 'n entry \<Rightarrow> 'n entry list \<Rightarrow> bool \<times> 'n entry list" where
  "addEntry H lang e entries =
     (if \<not> isValid (validateEntry H e) then (False, entries)
      else
        case map_of (domains lang) (toString H (e_domainKey e)) of
          Some rng \<Rightarrow>
            if \<not> validateScoreRange H (e_score e) (Some rng) then (False, entries)
            else (True, Array_sort H (entries @ [e]))
        | None \<Rightarrow> (True, Array_sort H (entries @ [e])))"

fun strict_equals :: "'n host \<Rightarrow> 'n jsvalue \<Rightarrow> 'n jsvalue \<Rightarrow> bool" where
  "strict_equals H Undefined Undefined = True"
| "strict_equals H Null Null = True"
| "strict_equals H (Bool a) (Bool b) = (a = b)"
| "strict_equals H (Num a) (Num b) = (Number_le H a b \<and> Number_le H b a)"
| "strict_equals H (Str a) (Str b) = (a = b)"
| "strict_equals H a b = False"

definition deleteEntry :: "'n host \<Rightarrow> 'n jsvalue \<Rightarrow> 'n entry list \<Rightarrow> bool \<times> 'n entry list" where
  "deleteEntry H ident entries =
     (if \<not> truthy H ident then (False, entries)
      else
        let remaining = filter (\<lambda>e. \<not> strict_equals H (e_id e) ident) entries in
        if length remaining < length entries then (True, Array_sort H remaining)
        else (False, remaining))"

section \<open>A host for the examples\<close>

text \<open>
  The closed examples of this theory run on \<open>demo_host\<close>. Its numbers are the integers
  and NaN; it prints and reads them in decimal, which is what the runtime does for these
  values. It takes a string for a valid date exactly when it is a calendar date
  \<^verbatim>\<open>YYYY-MM-DD\<close> with a month from 01 to 12 and a day from 01 to 28, dates that every
  runtime accepts. Its sort is the stable sort by \<^verbatim>\<open>date\<close>, descending, of strings
  compared by code units: the outcome of \<^verbatim>\<open>sortEntries\<close> under the initial
  \<^verbatim>\<open>currentSort\<close>. It has no JSON and no base64 (every call of them fails); no example
  reaches them. The theorems below that speak of an arbitrary host \<open>H\<close> do not depend on
  \<open>demo_host\<close>.
\<close>

datatype num = NaN | Fin int

function digits :: "nat \<Rightarrow> jsstring" where
  "digits n = (if n < 10 then [0x30 + of_nat n] else digits (n div 10) @ [0x30 + of_nat (n mod 10)])"
  by pat_completeness auto
termination
  by (relation "measure id") auto

declare digits.simps [simp del]

definition isDigit :: "jschar \<Rightarrow> bool" where
  "isDigit c \<longleftrightarrow> 0x30 \<le> c \<and> c \<le> 0x39"

definition digits_value :: "jsstring \<Rightarrow> int" where
  "digits_value s = foldl (\<lambda>a c. 10 * a + (uint c - 48)) 0 s"

definition num_toString :: "num \<Rightarrow> jsstring" where
  "num_toString n =
     (case n of
        NaN \<Rightarrow> js ''NaN''
      | Fin i \<Rightarrow> if i < 0 then cu CHR ''-'' # digits (nat (- i)) else digits (nat i))"

definition signed_digits :: "jsstring \<Rightarrow> num" where
  "signed_digits s =
     (case s of
        [] \<Rightarrow> NaN
      | c # r \<Rightarrow>
          if c = cu CHR ''-'' then (if r \<noteq> [] \<and> list_all isDigit r then Fin (- digits_value r) else NaN)
          else if c = cu CHR ''+'' then (if r \<noteq> [] \<and> list_all isDigit r then Fin (digits_value r) else NaN)
          else if list_all isDigit s then Fin (digits_value s) else NaN)"

definition num_of_string :: "jsstring \<Rightarrow> num" where
  "num_of_string s = (if trim s = [] then Fin 0 else signed_digits (trim s))"

definition num_prefix :: "jsstring \<Rightarrow> num" where
  "num_prefix s =
     (case dropWhile isWhiteSpace s of
        [] \<Rightarrow> NaN
      | c # r \<Rightarrow>
          if c = cu CHR ''-'' \<or> c = cu CHR ''+'' then signed_digits (c # takeWhile isDigit r)
          else signed_digits (takeWhile isDigit (c # r)))"

definition iso_date :: "jsstring \<Rightarrow> bool" where
  "iso_date s \<longleftrightarrow>
     length s = 10 \<and> list_all isDigit (take 4 s) \<and> s ! 4 = cu CHR ''-''
     \<and> list_all isDigit (take 2 (drop 5 s)) \<and> s ! 7 = cu CHR ''-''
     \<and> list_all isDigit (drop 8 s)
     \<and> 1 \<le> digits_value (take 2 (drop 5 s)) \<and> digits_value (take 2 (drop 5 s)) \<le> 12
     \<and> 1 \<le> digits_value (drop 8 s) \<and> digits_value (drop 8 s) \<le> 28"

fun str_less :: "jsstring \<Rightarrow> jsstring \<Rightarrow> bool" where
  "str_less [] [] = False"
| "str_less [] (b # bs) = True"
| "str_less (a # as) [] = False"
| "str_less (a # as) (b # bs) = (a < b \<or> (a = b \<and> str_less as bs))"

definition date_after :: "num entry \<Rightarrow> num entry \<Rightarrow> bool" where
  "date_after a b \<longleftrightarrow>
     (case (e_date a, e_date b) of (Str x, Str y) \<Rightarrow> str_less y x | _ \<Rightarrow> False)"

fun insert_desc :: "num entry \<Rightarrow> num entry list \<Rightarrow> num entry list" where
  "insert_desc x [] = [x]"
| "insert_desc x (y # ys) = (if date_after x y then x # y # ys else y # insert_desc x ys)"

definition sort_by_date_desc :: "num entry list \<Rightarrow> num entry list" where
  "sort_by_date_desc xs = foldl (\<lambda>acc x. insert_desc x acc) [] xs"

definition demo_host :: "num host" where
  "demo_host =
     \<lparr>Number_toString = num_toString,
      Number_isNaN = (\<lambda>n. n = NaN),
      Number_isZero = (\<lambda>n. n = Fin 0),
      Number_le = (\<lambda>a b. case (a, b) of (Fin x, Fin y) \<Rightarrow> x \<le> y | _ \<Rightarrow> False),
      StringToNumber = num_of_string,
      parseFloat = num_prefix,
      parseInt = num_prefix,
      Date_isValid = (\<lambda>v. case v of Str s \<Rightarrow> iso_date s | _ \<Rightarrow> False),
      JSON_stringify = (\<lambda>v. None),
      JSON_parse = (\<lambda>s. None),
      btoa = (\<lambda>s. None),
      atob = (\<lambda>s. None),
      Array_sort = sort_by_date_desc\<rparr>"

section \<open>Entries for the examples\<close>

definition entry_ok :: "num entry" where
  \<open>entry_ok =
     \<lparr>e_id = Str (js ''1700000000000''), e_date = Str (js ''2024-01-15''),
      e_domainKey = Str (js ''phq-9''), e_score = Num (Fin 12),
      e_note = Str (js ''he said "hi", ok'')\<rparr>\<close>

definition entry_unsafe_note :: "num entry" where
  "entry_unsafe_note = entry_ok\<lparr>e_note := Str (js ''javascript:alert(1)'')\<rparr>"

definition entry_unknown_domain :: "num entry" where
  "entry_unknown_domain = entry_ok\<lparr>e_domainKey := Str (js ''mood'')\<rparr>"

definition entry_same_id :: "num entry" where
  "entry_same_id = entry_ok\<lparr>e_date := Str (js ''2024-01-16''), e_score := Num (Fin 3), e_note := Str []\<rparr>"

definition entry_later :: "num entry" where
  "entry_later =
     \<lparr>e_id = Str (js ''1700000086400''), e_date = Str (js ''2024-01-16''),
      e_domainKey = Str (js ''gad-7''), e_score = Num (Fin 7),
      e_note = Str (js ''slept well'')\<rparr>"

definition entry_two_lines :: "num entry" where
  "entry_two_lines = entry_ok\<lparr>e_note := Str (js ''first line'' @ 0x0A # js ''second line'')\<rparr>"

definition entry_first_line :: "num entry" where
  "entry_first_line = entry_ok\<lparr>e_note := Str (js ''first line'')\<rparr>"

definition csv_two_entries :: jsstring where
  \<open>csv_two_entries =
     0xFEFF # js ''id,date,domainKey,score,note''
     @ 0x0A # js ''1700000000000,2024-01-15,phq-9,12,"he said ""hi"", ok"''
     @ 0x0A # js ''1700000086400,2024-01-16,gad-7,7,"slept well"''\<close>

definition csv_two_lines :: jsstring where
  \<open>csv_two_lines =
     0xFEFF # js ''id,date,domainKey,score,note''
     @ 0x0A # js ''1700000000000,2024-01-15,phq-9,12,"first line''
     @ 0x0A # js ''second line"''\<close>

text \<open>
  The two texts as files, under the name that \<^verbatim>\<open>exportToCSV\<close> gives to its download
  (\<^verbatim>\<open>QuickMHLog_Export_\<close>, the day, \<^verbatim>\<open>.csv\<close>) and with their sizes in bytes, the byte-order
  mark taking three bytes in UTF-8.
\<close>

definition file_two_entries :: csv_file where
  "file_two_entries =
     \<lparr>file_name = js ''QuickMHLog_Export_2024-01-16.csv'', file_size = 132,
      file_text = Some csv_two_entries\<rparr>"

definition file_two_lines :: csv_file where
  "file_two_lines =
     \<lparr>file_name = js ''QuickMHLog_Export_2024-01-15.csv'', file_size = 90,
      file_text = Some csv_two_lines\<rparr>"

section \<open>The format of the specification\<close>

text \<open>
  A note in double quotes, each quote in it doubled; the row of an entry; and, for
  \<^verbatim>\<open>validate\<close>, the list of the fields that have failure messages, with their messages.
\<close>

definition csv_quote :: "jsstring \<Rightarrow> jsstring" where
  \<open>csv_quote t = js ''"'' @ concat (map (\<lambda>c. if c = cu CHR ''"'' then js ''""'' else [c]) t) @ js ''"''\<close>

definition csv_line :: "'n host \<Rightarrow> 'n entry \<Rightarrow> jsstring" where
  "csv_line H e =
     sanitizeCSVValue H (e_id e) @ js '','' @ sanitizeCSVValue H (e_date e) @ js '',''
     @ sanitizeCSVValue H (e_domainKey e) @ js '','' @ sanitizeCSVValue H (e_score e) @ js '',''
     @ csv_quote (case e_note e of Str t \<Rightarrow> t | _ \<Rightarrow> [])"

text \<open>
  The entries that a CSV file carries unchanged. A field is plain when it is not empty,
  neither starts nor ends with white space and holds no comma, line feed, carriage return
  or tab. An entry is portable when its id and date are plain strings, its domainKey is a
  string, its score is a number whose text is plain and is read back as the same number,
  and its note is a string without a line feed.
\<close>

definition csv_plain :: "jsstring \<Rightarrow> bool" where
  "csv_plain s \<longleftrightarrow>
     s \<noteq> [] \<and> \<not> isWhiteSpace (hd s) \<and> \<not> isWhiteSpace (last s)
     \<and> list_all (\<lambda>c. c \<noteq> cu CHR '','' \<and> c \<noteq> 0x0A \<and> c \<noteq> 0x0D \<and> c \<noteq> 0x09) s"

definition plain_string :: "'n jsvalue \<Rightarrow> bool" where
  "plain_string v \<longleftrightarrow> (case v of Str s \<Rightarrow> csv_plain s | _ \<Rightarrow> False)"

definition portable :: "'n host \<Rightarrow> 'n entry \<Rightarrow> bool" where
  "portable H e \<longleftrightarrow>
     plain_string (e_id e) \<and> plain_string (e_date e)
     \<and> (case e_domainKey e of Str k \<Rightarrow> True | _ \<Rightarrow> False)
     \<and> (case e_score e of
          Num n \<Rightarrow> csv_plain (Number_toString H n) \<and> StringToNumber H (Number_toString H n) = n
        | _ \<Rightarrow> False)
     \<and> (case e_note e of Str t \<Rightarrow> 0x0A \<notin> set t | _ \<Rightarrow> False)"

text \<open>
  For a row that \<^verbatim>\<open>isValidImportRow\<close> accepts, \<open>row_candidate\<close> is the entry that the
  import builds from it; \<open>data_rows\<close> are the rows that an import counts: the lines after
  the header, at most \<open>maxImportRows\<close> of them, that are not blank.
\<close>

definition row_candidate :: "'n host \<Rightarrow> jsstring \<Rightarrow> 'n entry option" where
  "row_candidate H rowStr =
     (case parseCSVRow rowStr of
        (Some rid, Some rdate, Some rdomainKey, Some rscore, rnote) \<Rightarrow>
          if isValidImportRow H rid rdate rdomainKey rscore rnote
          then Some \<lparr>e_id = Str rid, e_date = Str rdate, e_domainKey = Str rdomainKey,
                      e_score = Num (StringToNumber H rscore),
                      e_note = Str (unquote_note rnote)\<rparr>
          else None
      | _ \<Rightarrow> None)"

definition data_rows :: "jsstring \<Rightarrow> jsstring list" where
  "data_rows text = filter (\<lambda>r. trim r \<noteq> []) (take maxImportRows (tl (split 0x0A text)))"

definition field_errors_of :: "'n rules \<Rightarrow> (string \<Rightarrow> 'n jsvalue) \<Rightarrow> (string \<times> string list) list" where
  "field_errors_of rules data =
     concat (map (\<lambda>(f, vs). if fieldErrors vs (data f) \<noteq> [] then [(f, fieldErrors vs (data f))] else [])
       rules)"

section \<open>Properties of \<^verbatim>\<open>sanitizeInput\<close>\<close>

lemma rmatch_suffix: "rmatch r s = Some rest \<Longrightarrow> suffix rest s"
proof (induction r s arbitrary: rest rule: rmatch.induct)
  case (7 p r c s)
  then show ?case by (auto split: if_splits option.splits simp: suffix_Cons)
next
  case (9 p r c s)
  then show ?case by (auto split: if_splits option.splits simp: suffix_Cons)
qed (auto split: if_splits simp: suffix_Cons)

lemma subseq_replace_all: "subseq (replace_all r [] s) s"
proof (induction r "[]::jsstring" s rule: replace_all.induct)
  case (1 r s)
  note ih_none = 1(1) and ih_match = 1(2) and ih_empty = 1(3)
  show ?case
  proof (cases "rmatch r s")
    case None
    show ?thesis
      by (subst replace_all.simps) (use None ih_none in \<open>auto split: list.splits\<close>)
  next
    case (Some rest)
    show ?thesis
    proof (cases "length rest < length s")
      case True
      have "subseq (replace_all r [] rest) rest" using ih_match[OF Some True] .
      moreover have "subseq rest s" using rmatch_suffix[OF Some] by (simp add: suffix_imp_subseq)
      ultimately have "subseq (replace_all r [] rest) s" by (rule subseq_order.trans)
      then show ?thesis
        by (subst replace_all.simps) (use Some True in simp)
    next
      case False
      show ?thesis
        by (subst replace_all.simps) (use Some False ih_empty[OF Some False] in \<open>auto split: list.splits\<close>)
    qed
  qed
qed

lemma subseq_trim: "subseq (trim s) s"
proof -
  have "prefix (rev (dropWhile isWhiteSpace (rev (dropWhile isWhiteSpace s)))) (dropWhile isWhiteSpace s)"
    by (metis suffix_dropWhile suffix_to_prefix rev_rev_ident)
  moreover have "suffix (dropWhile isWhiteSpace s) s" by (rule suffix_dropWhile)
  ultimately show ?thesis unfolding trim_def
    by (meson prefix_imp_subseq suffix_imp_subseq subseq_order.trans)
qed

lemma trim_last: "trim s \<noteq> [] \<Longrightarrow> \<not> isWhiteSpace (last (trim s))"
  unfolding trim_def by (simp add: last_rev hd_dropWhile)

lemma trim_hd: "trim s \<noteq> [] \<Longrightarrow> \<not> isWhiteSpace (hd (trim s))"
proof -
  assume ne: "trim s \<noteq> []"
  let ?ys = "dropWhile isWhiteSpace s"
  have p: "prefix (trim s) ?ys" unfolding trim_def
    by (metis suffix_dropWhile suffix_to_prefix rev_rev_ident)
  then have "hd (trim s) = hd ?ys" using ne by (auto simp: prefix_def)
  moreover have "?ys \<noteq> []" by (metis p ne prefix_Nil)
  then have "\<not> isWhiteSpace (hd ?ys)" by (rule hd_dropWhile)
  ultimately show ?thesis by simp
qed

lemma replace_all_One: "replace_all [One p] [] s = filter (\<lambda>c. \<not> p c) s"
proof (induction s)
  case Nil
  show ?case by (subst replace_all.simps) simp
next
  case (Cons c s)
  show ?case by (subst replace_all.simps) (simp add: Cons)
qed

lemma sanitizeInput_Str_subseq:
  "subseq (sanitizeInput H (Str s)) (replace_all [One (\<lambda>c. c = cu CHR ''<'' \<or> c = cu CHR ''>'')] [] s)"
  unfolding sanitizeInput_def jsvalue.case
  by (meson subseq_trim subseq_replace_all subseq_order.trans)


text \<open>
  What holds of both builds. For a string, \<^verbatim>\<open>sanitizeInput\<close> only deletes code units;
  its result holds no angle bracket and neither starts nor ends with white space. The two
  builds agree on strings. An input that is not a string skips the replacements: the
  TypeScript build returns its string form, the JavaScript build the input itself.
\<close>

lemma sanitizeInput_string:
  "cu CHR ''<'' \<notin> set (sanitizeInput H (Str s))"
  "cu CHR ''>'' \<notin> set (sanitizeInput H (Str s))"
  "subseq (sanitizeInput H (Str s)) s"
  "sanitizeInput H (Str s) \<noteq> [] \<Longrightarrow> \<not> isWhiteSpace (hd (sanitizeInput H (Str s)))"
  "sanitizeInput H (Str s) \<noteq> [] \<Longrightarrow> \<not> isWhiteSpace (last (sanitizeInput H (Str s)))"
proof -
  let ?a = "replace_all [One (\<lambda>c. c = cu CHR ''<'' \<or> c = cu CHR ''>'')] [] s"
  have sub: "subseq (sanitizeInput H (Str s)) ?a" by (rule sanitizeInput_Str_subseq)
  then have "set (sanitizeInput H (Str s)) \<subseteq> set ?a"
    by (auto dest: list_emb_set)
  then show "cu CHR ''<'' \<notin> set (sanitizeInput H (Str s))" "cu CHR ''>'' \<notin> set (sanitizeInput H (Str s))"
    by (auto simp: replace_all_One)
  have "subseq ?a s" by (rule subseq_replace_all)
  with sub show "subseq (sanitizeInput H (Str s)) s" by (rule subseq_order.trans)
  have eq: "sanitizeInput H (Str s) = trim (replace_all (lits_i ''data:'') []
              (replace_all (lits_i ''on'' @ [Plus isWordChar, One (\<lambda>c. c = cu CHR ''='')]) []
                (replace_all (lits_i ''javascript:'') [] ?a)))"
    unfolding sanitizeInput_def by simp
  show "\<not> isWhiteSpace (hd (sanitizeInput H (Str s)))" if "sanitizeInput H (Str s) \<noteq> []"
    using that unfolding eq by (rule trim_hd)
  show "\<not> isWhiteSpace (last (sanitizeInput H (Str s)))" if "sanitizeInput H (Str s) \<noteq> []"
    using that unfolding eq by (rule trim_last)
qed

lemma sanitizeInput_js_string: "sanitizeInput_js (Str s) = Str (sanitizeInput H (Str s))"
  unfolding sanitizeInput_js_def sanitizeInput_def by simp

lemma sanitizeInput_not_string:
  assumes "\<forall>s. input \<noteq> Str s"
  shows "sanitizeInput H input = toString H input" and "sanitizeInput_js input = input"
  using assms unfolding sanitizeInput_def sanitizeInput_js_def by (cases input; simp)+

text \<open>
  Claim C6 is what the comments of \<^verbatim>\<open>sanitizeInput\<close> announce (\<^verbatim>\<open>Remove javascript: protocol\<close>,
  \<^verbatim>\<open>Remove event handlers\<close>, \<^verbatim>\<open>Remove data: protocol\<close>), and the code misses it. Each
  pattern is deleted in a single pass over the string, and deleting an occurrence can put
  a new one together from what stood around it: in both builds the string
  \<^verbatim>\<open>javajavascript:script:\<close> comes back as \<^verbatim>\<open>javascript:\<close>, \<^verbatim>\<open>dadata:ta:x\<close> as \<^verbatim>\<open>data:x\<close>,
  and \<^verbatim>\<open>ondata:click=x\<close>, whose \<^verbatim>\<open>data:\<close> is deleted after the pass for the event handlers, as
  \<^verbatim>\<open>onclick=x\<close>.
\<close>

theorem sanitizeInput_residue:
  "sanitizeInput demo_host (Str (js ''javajavascript:script:'')) = js ''javascript:''
   \<and> sanitizeInput_js (Str (js ''javajavascript:script:'') :: num jsvalue) = Str (js ''javascript:'')
   \<and> sanitizeInput demo_host (Str (js ''dadata:ta:x'')) = js ''data:x''
   \<and> sanitizeInput_js (Str (js ''dadata:ta:x'') :: num jsvalue) = Str (js ''data:x'')
   \<and> sanitizeInput demo_host (Str (js ''ondata:click=x'')) = js ''onclick=x''
   \<and> sanitizeInput_js (Str (js ''ondata:click=x'') :: num jsvalue) = Str (js ''onclick=x'')"
  by code_simp

section \<open>Properties of the rate limiter\<close>

lemma evict_dropWhile: "evict tw now calls = dropWhile (\<lambda>t. t < now - tw) calls"
  by (induction calls) auto

lemma evict_none: "\<forall>a\<in>set calls. \<not> a < now - tw \<Longrightarrow> evict tw now calls = calls"
  by (cases calls) auto

lemma evict_suffix: "suffix (evict tw now calls) calls"
  by (simp add: evict_dropWhile suffix_dropWhile)

lemma evict_evict: "now \<le> now2 \<Longrightarrow> evict tw now2 (evict tw now calls) = evict tw now2 calls"
  by (induction calls) auto

lemma calls_within:
  assumes "\<forall>a\<in>set (calls @ ts). \<forall>b\<in>set (calls @ ts). b - a \<le> tw"
    and "int (length calls + length ts) \<le> maxCalls"
  shows "rateLimiter_calls maxCalls tw fn ts calls w =
           (map Inr (fst (run_each fn ts w)), calls @ ts, snd (run_each fn ts w))"
  using assms
proof (induction ts arbitrary: calls w)
  case Nil
  show ?case by simp
next
  case (Cons now ts)
  have ev: "evict tw now calls = calls"
  proof (rule evict_none, rule ballI)
    fix a assume "a \<in> set calls"
    then have "now - a \<le> tw" using Cons.prems(1) by simp
    then show "\<not> a < now - tw" by simp
  qed
  have lt: "\<not> maxCalls \<le> int (length calls)" using Cons.prems(2) by simp
  obtain r w1 where f: "fn w = (r, w1)" by (cases "fn w")
  have step: "rateLimiter_call maxCalls tw now fn calls w = (Inr r, calls @ [now], w1)"
    by (simp add: rateLimiter_call_def ev lt f)
  have ih: "rateLimiter_calls maxCalls tw fn ts (calls @ [now]) w1 =
           (map Inr (fst (run_each fn ts w1)), (calls @ [now]) @ ts, snd (run_each fn ts w1))"
    using Cons.prems by (intro Cons.IH) auto
  show ?case by (simp add: step ih f split: prod.splits)
qed


text \<open>
  Claim C7. On a fresh limiter made for as many calls as \<open>ts\<close> has readings, all of them
  within one window: every call runs the wrapped operation; a further call within the
  window of all of them raises the rate-limit failure and leaves the state of the
  operation alone; a call made after the window of the earliest recorded call has elapsed
  runs the operation again.
\<close>

theorem rate_limiter_window:
  assumes "\<forall>a\<in>set ts. \<forall>b\<in>set ts. b - a \<le> timeWindow"
  shows "rateLimiter_calls (int (length ts)) timeWindow fn ts [] w =
           (map Inr (fst (run_each fn ts w)), ts, snd (run_each fn ts w))
       \<and> (\<forall>now w'. (\<forall>a\<in>set ts. now - a \<le> timeWindow) \<longrightarrow>
            rateLimiter_call (int (length ts)) timeWindow now fn ts w' =
              (Inl (Error ''Rate limit exceeded''), ts, w'))
       \<and> (\<forall>now w'. ts \<noteq> [] \<and> hd ts < now - timeWindow \<longrightarrow>
            rateLimiter_call (int (length ts)) timeWindow now fn ts w' =
              (Inr (fst (fn w')), evict timeWindow now ts @ [now], snd (fn w')))"
proof (intro conjI allI impI)
  show "rateLimiter_calls (int (length ts)) timeWindow fn ts [] w =
           (map Inr (fst (run_each fn ts w)), ts, snd (run_each fn ts w))"
    using calls_within[of "[]" ts timeWindow "int (length ts)" fn w] assms by simp
next
  fix now w' assume "\<forall>a\<in>set ts. now - a \<le> timeWindow"
  then have "evict timeWindow now ts = ts" by (intro evict_none) auto
  then show "rateLimiter_call (int (length ts)) timeWindow now fn ts w' =
              (Inl (Error ''Rate limit exceeded''), ts, w')"
    by (simp add: rateLimiter_call_def)
next
  fix now w' assume a: "ts \<noteq> [] \<and> hd ts < now - timeWindow"
  then obtain t rest where ts: "ts = t # rest" by (cases ts) auto
  have "suffix (evict timeWindow now ts) rest" using a ts by (simp add: evict_suffix)
  then have "length (evict timeWindow now ts) \<le> length rest" by (rule suffix_length_le)
  then have "\<not> int (length ts) \<le> int (length (evict timeWindow now ts))" using ts by simp
  then show "rateLimiter_call (int (length ts)) timeWindow now fn ts w' =
              (Inr (fst (fn w')), evict timeWindow now ts @ [now], snd (fn w'))"
    by (simp add: rateLimiter_call_def Let_def split: prod.splits)
qed

theorem rate_limiter_window_witness:
  "rateLimiter_calls 3 1000 (\<lambda>w :: nat. (w, Suc w)) [0, 400, 900] [] 0 =
         ([Inr 0, Inr 1, Inr 2], [0, 400, 900], 3)
   \<and> rateLimiter_call 3 1000 950 (\<lambda>w :: nat. (w, Suc w)) [0, 400, 900] 3 =
         (Inl (Error ''Rate limit exceeded''), [0, 400, 900], 3)
   \<and> rateLimiter_call 3 1000 1001 (\<lambda>w :: nat. (w, Suc w)) [0, 400, 900] 3 =
         (Inr 3, [400, 900, 1001], 4)"
proof -
  have h: "\<forall>a\<in>set [0, 400, 900 :: int]. \<forall>b\<in>set [0, 400, 900]. b - a \<le> 1000"
    by simp
  have w: "rateLimiter_calls (int (length [0, 400, 900 :: int])) 1000 (\<lambda>w :: nat. (w, Suc w)) [0, 400, 900] [] 0 =
             (map Inr (fst (run_each (\<lambda>w :: nat. (w, Suc w)) [0, 400, 900 :: int] 0)), [0, 400, 900],
              snd (run_each (\<lambda>w :: nat. (w, Suc w)) [0, 400, 900 :: int] 0))"
    and r: "\<forall>now w'. (\<forall>a\<in>set [0, 400, 900 :: int]. now - a \<le> 1000) \<longrightarrow>
             rateLimiter_call (int (length [0, 400, 900 :: int])) 1000 now (\<lambda>w :: nat. (w, Suc w)) [0, 400, 900] w' =
               (Inl (Error ''Rate limit exceeded''), [0, 400, 900], w')"
    and e: "\<forall>now w'. [0, 400, 900 :: int] \<noteq> [] \<and> hd [0, 400, 900 :: int] < now - 1000 \<longrightarrow>
             rateLimiter_call (int (length [0, 400, 900 :: int])) 1000 now (\<lambda>w :: nat. (w, Suc w)) [0, 400, 900] w' =
               (Inr (fst (w', Suc w')), evict 1000 now [0, 400, 900] @ [now], snd (w', Suc w'))"
    using rate_limiter_window [OF h, of "\<lambda>w :: nat. (w, Suc w)" 0] by blast+
  have p: "\<forall>a\<in>set [0, 400, 900 :: int]. 950 - a \<le> 1000" by simp
  have r950: "rateLimiter_call 3 1000 950 (\<lambda>w :: nat. (w, Suc w)) [0, 400, 900] 3 =
               (Inl (Error ''Rate limit exceeded''), [0, 400, 900], 3)"
  proof -
    from r have "(\<forall>a\<in>set [0, 400, 900 :: int]. 950 - a \<le> 1000) \<longrightarrow>
             rateLimiter_call (int (length [0, 400, 900 :: int])) 1000 950 (\<lambda>w :: nat. (w, Suc w)) [0, 400, 900] 3 =
               (Inl (Error ''Rate limit exceeded''), [0, 400, 900], 3)"
      by blast
    with p show ?thesis by simp
  qed
  have e1001: "rateLimiter_call 3 1000 1001 (\<lambda>w :: nat. (w, Suc w)) [0, 400, 900] 3 =
               (Inr 3, [400, 900, 1001], 4)"
    using e [rule_format, of 1001 3] by simp
  have w3: "rateLimiter_calls 3 1000 (\<lambda>w :: nat. (w, Suc w)) [0, 400, 900] [] 0 =
         ([Inr 0, Inr 1, Inr 2], [0, 400, 900], 3)"
    using w by simp
  show ?thesis
    using w3 r950 e1001 by blast
qed

text \<open>
  Claim C10. When a call of the wrapper raises, the failure is the rate-limit failure, the
  wrapped operation has not run (its state is as before), and the list of calls has lost
  evicted readings only: it is a suffix of the old one, nothing is recorded for the
  rejected call, and every later call fares as if the rejected call had not been made.
\<close>

theorem rate_limit_rejection_atomic:
  assumes "fst (rateLimiter_call maxCalls timeWindow now fn calls w) = Inl err"
  shows "rateLimiter_call maxCalls timeWindow now fn calls w =
           (Inl (Error ''Rate limit exceeded''), evict timeWindow now calls, w)
       \<and> suffix (evict timeWindow now calls) calls
       \<and> (\<forall>now2 fn2 w2. now \<le> now2 \<longrightarrow>
            rateLimiter_call maxCalls timeWindow now2 fn2 (evict timeWindow now calls) w2 =
            rateLimiter_call maxCalls timeWindow now2 fn2 calls w2)"
proof -
  have g: "maxCalls \<le> int (length (evict timeWindow now calls))"
    using assms by (auto simp: rateLimiter_call_def Let_def split: if_splits prod.splits)
  then show ?thesis
    by (simp add: rateLimiter_call_def Let_def evict_suffix evict_evict)
qed

theorem rate_limit_rejection_atomic_witness:
  "fst (rateLimiter_call 2 1000 1200 (\<lambda>w :: nat. (w, Suc w)) [100, 500, 900] 7) =
     Inl (Error ''Rate limit exceeded'')
   \<and> rateLimiter_call 2 1000 1200 (\<lambda>w :: nat. (w, Suc w)) [100, 500, 900] 7 =
       (Inl (Error ''Rate limit exceeded''), [500, 900], 7)
   \<and> rateLimiter_call 2 1000 1600 (\<lambda>w :: nat. (w, Suc w)) [500, 900] 7 =
       rateLimiter_call 2 1000 1600 (\<lambda>w :: nat. (w, Suc w)) [100, 500, 900] 7"
proof -
  have h: "fst (rateLimiter_call 2 1000 1200 (\<lambda>w :: nat. (w, Suc w)) [100, 500, 900] 7) =
             Inl (Error ''Rate limit exceeded'')"
    by (simp add: rateLimiter_call_def)
  have ev: "evict 1000 1200 [100, 500, 900] = [500, 900]" by simp
  note c = rate_limit_rejection_atomic [OF h, unfolded ev]
  have a: "rateLimiter_call 2 1000 1200 (\<lambda>w :: nat. (w, Suc w)) [100, 500, 900] 7 =
       (Inl (Error ''Rate limit exceeded''), [500, 900], 7)"
    using c by (rule conjunct1)
  have b: "rateLimiter_call 2 1000 1600 (\<lambda>w :: nat. (w, Suc w)) [500, 900] 7 =
       rateLimiter_call 2 1000 1600 (\<lambda>w :: nat. (w, Suc w)) [100, 500, 900] 7"
    using c [THEN conjunct2, THEN conjunct2, rule_format, of 1600 "\<lambda>w :: nat. (w, Suc w)" 7]
    by simp
  show ?thesis
    using h a b by blast
qed

section \<open>Properties of the storage adapter\<close>

text \<open>
  Claim C1, as the code has it. On an adapter whose probe failed, \<^verbatim>\<open>getItem\<close> returns
  \<^verbatim>\<open>null\<close>, \<^verbatim>\<open>removeItem\<close> and \<^verbatim>\<open>clear\<close> return \<^verbatim>\<open>false\<close> and leave the store as it
  is, and \<^verbatim>\<open>setItem\<close> raises \<^verbatim>\<open>Error('Storage not available')\<close>.
\<close>

theorem unavailable_storage:
  assumes "\<not> isAvailable self"
  shows "setItem H self key val enc st = Inl (Error ''Storage not available'')
       \<and> getItem H self key dec st = Null
       \<and> removeItem self key st = (False, st)
       \<and> clear self st = (False, st)"
  using assms by (simp add: setItem_def getItem_def removeItem_def clear_def)

theorem unavailable_storage_witness:
  "\<not> isAvailable (fst (new_SecureStorage (js ''quickmh_'') \<lparr>items = [], disabled = True, quota = 0\<rparr>))
   \<and> getItem demo_host (fst (new_SecureStorage (js ''quickmh_'') \<lparr>items = [], disabled = True, quota = 0\<rparr>))
         (js ''entries'') False \<lparr>items = [], disabled = True, quota = 0\<rparr> = Null
   \<and> removeItem (fst (new_SecureStorage (js ''quickmh_'') \<lparr>items = [], disabled = True, quota = 0\<rparr>))
         (js ''entries'') \<lparr>items = [], disabled = True, quota = 0\<rparr>
       = (False, \<lparr>items = [], disabled = True, quota = 0\<rparr>)
   \<and> clear (fst (new_SecureStorage (js ''quickmh_'') \<lparr>items = [], disabled = True, quota = 0\<rparr>))
         \<lparr>items = [], disabled = True, quota = 0\<rparr>
       = (False, \<lparr>items = [], disabled = True, quota = 0\<rparr>)"
proof -
  have h: "\<not> isAvailable (fst (new_SecureStorage (js ''quickmh_'') \<lparr>items = [], disabled = True, quota = 0\<rparr>))"
    by (simp add: new_SecureStorage_def checkAvailability_def ls_setItem_def)
  show ?thesis
    using h unavailable_storage [OF h, of demo_host "js ''entries''" "Str (js ''x'')" False
        "\<lparr>items = [], disabled = True, quota = 0\<rparr>" False]
    by simp
qed

text \<open>
  Claim C1 as stated fails for \<^verbatim>\<open>setItem\<close>: on an adapter built over a store that refuses
  every access, the call raises.
\<close>

theorem unavailable_setItem_counterexample:
  "\<not> isAvailable (fst (new_SecureStorage (js ''quickmh_'') \<lparr>items = [], disabled = True, quota = 0\<rparr>))
   \<and> setItem demo_host (fst (new_SecureStorage (js ''quickmh_'') \<lparr>items = [], disabled = True, quota = 0\<rparr>))
         (js ''entries'') (Str (js ''[]'')) False \<lparr>items = [], disabled = True, quota = 0\<rparr>
       = Inl (Error ''Storage not available'')"
  by (simp add: new_SecureStorage_def checkAvailability_def ls_setItem_def setItem_def)

section \<open>Properties of \<^verbatim>\<open>withRetry\<close>\<close>

lemma state_before_Suc: "state_before operation (Suc k) s = snd (operation (state_before operation k s))"
  by (simp add: state_before_def)

lemma withRetry_loop_run:
  assumes "k < j" "int j \<le> maxRetries"
    and "\<forall>i. k \<le> i \<and> i < j - 1 \<longrightarrow> isl (outcome operation i s)"
    and "\<not> isl (outcome operation (j - 1) s) \<or> int j = maxRetries"
  shows "withRetry_loop operation maxRetries delay (int k + 1) le (state_before operation k s) tr =
           ((case outcome operation (j - 1) s of Inl e \<Rightarrow> Inl (Some e) | Inr v \<Rightarrow> Inr v),
            state_before operation j s,
            tr @ concat (map (\<lambda>k. [Invoked, Waited (delay * 2 ^ (k - 1))]) [Suc k..<j]) @ [Invoked])"
  using assms
proof (induction "j - k" arbitrary: k le tr)
  case 0
  then show ?case by simp
next
  case (Suc d)
  let ?s = "state_before operation k s"
  define r where "r = outcome operation k s"
  have op: "operation ?s = (r, state_before operation (Suc k) s)"
    by (simp add: r_def outcome_def state_before_Suc)
  have r: "r = outcome operation k s" by (rule r_def)
  have le: "int k + 1 \<le> maxRetries" using Suc.prems by simp
  show ?case
  proof (cases "Suc k = j")
    case True
    then have k: "k = j - 1" by simp
    have up: "[Suc k..<j] = []" using True by simp
    show ?thesis
    proof (cases r)
      case (Inr v)
      then show ?thesis
        by (subst withRetry_loop.simps) (simp add: le op up True[symmetric] r[symmetric])
    next
      case (Inl e)
      then have "int j = maxRetries" using Suc.prems(4) r k by auto
      then have "int k + 1 = maxRetries" using True by simp
      then show ?thesis using Inl
        by (subst withRetry_loop.simps) (simp add: op up True[symmetric] r[symmetric])
    qed
  next
    case False
    then have lt: "Suc k < j" using Suc.prems(1) by simp
    then have "isl (outcome operation k s)" using Suc.prems(3) by simp
    then have "isl r" using r by simp
    then obtain e where e: "r = Inl e" by (cases r) auto
    have ne: "int k + 1 \<noteq> maxRetries" using lt Suc.prems(2) by simp
    have ih: "withRetry_loop operation maxRetries delay (int (Suc k) + 1) (Some e)
                (state_before operation (Suc k) s) (tr @ [Invoked, Waited (delay * 2 ^ k)]) =
           ((case outcome operation (j - 1) s of Inl e \<Rightarrow> Inl (Some e) | Inr v \<Rightarrow> Inr v),
            state_before operation j s,
            (tr @ [Invoked, Waited (delay * 2 ^ k)]) @
              concat (map (\<lambda>k. [Invoked, Waited (delay * 2 ^ (k - 1))]) [Suc (Suc k)..<j]) @ [Invoked])"
      using Suc.hyps(2) lt Suc.prems by (intro Suc.hyps(1)) auto
    have up: "[Suc k..<j] = Suc k # [Suc (Suc k)..<j]" using lt by (simp add: upt_conv_Cons)
    have nk: "nat (int k + 1 - 1) = k" by simp
    show ?thesis
      apply (subst withRetry_loop.simps)
      using ih by (simp add: le op[unfolded e] ne up nk)
  qed
qed

lemma withRetry_run:
  assumes "1 \<le> j" "int j \<le> maxRetries"
    and "\<forall>i < j - 1. isl (outcome operation i s)"
    and "\<not> isl (outcome operation (j - 1) s) \<or> int j = maxRetries"
  shows "withRetry operation maxRetries delay s =
           ((case outcome operation (j - 1) s of Inl e \<Rightarrow> Inl (Some e) | Inr v \<Rightarrow> Inr v),
            state_before operation j s, backoff_trace delay j)"
  using withRetry_loop_run[of 0 j maxRetries operation s delay None "[]"] assms
  by (simp add: withRetry_def backoff_trace_def state_before_def)

lemma backoff_trace_invocations:
  "1 \<le> j \<Longrightarrow> length (filter (\<lambda>x. x = Invoked) (backoff_trace delay j)) = j"
proof -
  have "length (filter (\<lambda>x. x = Invoked)
          (concat (map (\<lambda>k. [Invoked, Waited (delay * 2 ^ (k - 1))]) [a..<b]))) = b - a" for a b
    by (induction b) auto
  then show "1 \<le> j \<Longrightarrow> ?thesis" by (simp add: backoff_trace_def)
qed

text \<open>
  Claim C8. With \<open>maxRetries\<close> at least 1: if every invocation fails, the operation is
  invoked \<open>maxRetries\<close> times, with a wait of \<open>delay * 2^(k-1)\<close> after the \<open>k\<close>-th failure
  but the last, and the failure of the last invocation is thrown as it is; if the \<open>j\<close>-th
  invocation is the first to succeed, its result is returned after exactly \<open>j\<close>
  invocations.
\<close>

theorem withRetry_backoff:
  "(1 \<le> maxRetries \<and> (\<forall>i < nat maxRetries. outcome operation i s = Inl (err i)) \<longrightarrow>
      withRetry operation maxRetries delay s =
        (Inl (Some (err (nat maxRetries - 1))), state_before operation (nat maxRetries) s,
         backoff_trace delay (nat maxRetries))
      \<and> length (filter (\<lambda>x. x = Invoked) (snd (snd (withRetry operation maxRetries delay s))))
          = nat maxRetries)
   \<and> (1 \<le> j \<and> int j \<le> maxRetries \<and> (\<forall>i < j - 1. isl (outcome operation i s))
       \<and> outcome operation (j - 1) s = Inr v \<longrightarrow>
      withRetry operation maxRetries delay s = (Inr v, state_before operation j s, backoff_trace delay j)
      \<and> length (filter (\<lambda>x. x = Invoked) (snd (snd (withRetry operation maxRetries delay s)))) = j)"
proof (intro conjI impI)
  assume a: "1 \<le> maxRetries \<and> (\<forall>i < nat maxRetries. outcome operation i s = Inl (err i))"
  let ?m = "nat maxRetries"
  have m: "1 \<le> ?m" "int ?m \<le> maxRetries" using a by auto
  have f: "\<forall>i < ?m - 1. isl (outcome operation i s)" using a by simp
  have l: "outcome operation (?m - 1) s = Inl (err (?m - 1))" using a m by simp
  have d: "\<not> isl (outcome operation (?m - 1) s) \<or> int ?m = maxRetries" using a by simp
  show r: "withRetry operation maxRetries delay s =
        (Inl (Some (err (?m - 1))), state_before operation ?m s, backoff_trace delay ?m)"
    using withRetry_run [OF m f d, of delay] unfolding l by simp
  show "length (filter (\<lambda>x. x = Invoked) (snd (snd (withRetry operation maxRetries delay s)))) = ?m"
    unfolding r using backoff_trace_invocations [OF m(1)] by simp
next
  assume a: "1 \<le> j \<and> int j \<le> maxRetries \<and> (\<forall>i < j - 1. isl (outcome operation i s))
       \<and> outcome operation (j - 1) s = Inr v"
  then have j: "1 \<le> j" "int j \<le> maxRetries" and f: "\<forall>i < j - 1. isl (outcome operation i s)"
    and d: "\<not> isl (outcome operation (j - 1) s) \<or> int j = maxRetries"
    by simp_all
  show r: "withRetry operation maxRetries delay s = (Inr v, state_before operation j s, backoff_trace delay j)"
    using withRetry_run [OF j f d, of delay] a by simp
  show "length (filter (\<lambda>x. x = Invoked) (snd (snd (withRetry operation maxRetries delay s)))) = j"
    unfolding r using backoff_trace_invocations [OF j(1)] by simp
qed

theorem withRetry_backoff_witness:
  "withRetry (\<lambda>n :: nat. (Inl n :: nat + unit, Suc n)) 3 1000 0 =
     (Inl (Some 2), 3, [Invoked, Waited 1000, Invoked, Waited 2000, Invoked])
   \<and> withRetry (\<lambda>n :: nat. (if n = 0 then Inl n else Inr (), Suc n)) 3 1000 0 =
     (Inr (), 2, [Invoked, Waited 1000, Invoked])"
proof -
  let ?f = "\<lambda>n :: nat. (Inl n :: nat + unit, Suc n)"
  let ?g = "\<lambda>n :: nat. (if n = 0 then Inl n else Inr (), Suc n)"
  have sb1: "state_before ?f k 0 = k" for k
    by (induction k) (simp_all add: state_before_def)
  have sb2: "state_before ?g k 0 = k" for k
    by (induction k) (simp_all add: state_before_def)
  have bt3: "backoff_trace 1000 3 = [Invoked, Waited 1000, Invoked, Waited 2000, Invoked]"
    by (simp add: backoff_trace_def upt_rec)
  have bt2: "backoff_trace 1000 2 = [Invoked, Waited 1000, Invoked]"
    by (simp add: backoff_trace_def upt_rec)
  have pa: "1 \<le> (3 :: int) \<and> (\<forall>i < nat 3. outcome ?f i 0 = Inl i)"
    by (simp add: outcome_def sb1)
  have pb: "1 \<le> (2 :: nat) \<and> int 2 \<le> 3 \<and> (\<forall>i < 2 - 1. isl (outcome ?g i 0))
       \<and> outcome ?g (2 - 1) 0 = Inr ()"
    by (simp add: outcome_def sb2)
  have a: "withRetry ?f 3 1000 0 =
     (Inl (Some 2), 3, [Invoked, Waited 1000, Invoked, Waited 2000, Invoked])"
    using withRetry_backoff [of 3 ?f 0 "\<lambda>i. i" 1000 0 "()", THEN conjunct1, rule_format, OF pa]
    by (simp add: sb1 bt3)
  have b: "withRetry ?g 3 1000 0 = (Inr (), 2, [Invoked, Waited 1000, Invoked])"
    using withRetry_backoff [of 3 ?g 0 "\<lambda>i. i" 1000 2 "()", THEN conjunct2, rule_format, OF pb]
    by (simp add: sb2 bt2)
  show ?thesis using a b by simp
qed

section \<open>Properties of the entry validator\<close>

lemma fieldErrors_Nil_iff: "fieldErrors vs v = [] \<longleftrightarrow> (\<forall>x\<in>set vs. check x v = Some True)"
  by (induction vs) (auto split: option.splits bool.splits)

lemma validate_fields_eq:
  "validate_fields rules data acc =
     (if field_errors_of rules data = [] then acc
      else \<lparr>isValid = False, errors = errors acc @ field_errors_of rules data\<rparr>)"
proof (induction rules arbitrary: acc)
  case Nil
  show ?case by (simp add: field_errors_of_def)
next
  case (Cons r rules)
  obtain f vs where r: "r = (f, vs)" by (cases r)
  have c: "field_errors_of ((f, vs) # rules) data =
      (if fieldErrors vs (data f) \<noteq> [] then [(f, fieldErrors vs (data f))] else [])
        @ field_errors_of rules data"
    by (simp add: field_errors_of_def)
  show ?case
    unfolding r by (simp add: Cons.IH Let_def c)
qed

lemma validate_eq:
  "validate rules data =
     \<lparr>isValid = (field_errors_of rules data = []), errors = field_errors_of rules data\<rparr>"
  by (simp add: validate_def validate_fields_eq)

lemma setupFormValidation_rules:
  "setupFormValidation H =
     [(''id'', [required ''Entry ID is required'']),
      (''date'', [required ''Date is required'', date_rule H ''Please enter a valid date'']),
      (''domainKey'',
         [required ''Assessment type is required'',
          custom (\<lambda>v. Some (hasOwnDomain H v)) ''Invalid assessment type'']),
      (''score'', [required ''Score is required'', number H ''Score must be a number'']),
      (''note'',
         [maxLength_rule 1000 ''Note must not exceed 1000 characters'',
          custom (\<lambda>v. if \<not> truthy H v then Some True else Some (\<not> containsMaliciousContent v))
            ''Note contains potentially unsafe content''])]"
  by (simp add: setupFormValidation_def addRule_def)

lemma isValid_validateEntry:
  "isValid (validateEntry H e) \<longleftrightarrow> validateEntry H e = \<lparr>isValid = True, errors = []\<rparr>"
  by (auto simp: validateEntry_def validate_eq)

lemma isValid_validateEntry_iff:
  "isValid (validateEntry H e) \<longleftrightarrow>
     isRequired (e_id e)
     \<and> isRequired (e_date e) \<and> isDate H (e_date e)
     \<and> isRequired (e_domainKey e) \<and> hasOwnDomain H (e_domainKey e)
     \<and> isRequired (e_score e) \<and> isNumber H (e_score e)
     \<and> maxLength (e_note e) 1000
     \<and> (\<not> truthy H (e_note e) \<or> \<not> containsMaliciousContent (e_note e))"
  unfolding validateEntry_def validate_eq setupFormValidation_rules
  by (auto simp: field_errors_of_def fieldErrors_Nil_iff field_def required_def number_def
      maxLength_rule_def date_rule_def custom_def)


lemma hasOwnDomain_isRequired: "hasOwnDomain H v \<Longrightarrow> isRequired v"
  by (cases v) (auto simp: hasOwnDomain_def isRequired_def domains_def js_def cu_def)

text \<open>
  Claim C3, as the code has it. A record passes, with no failure message for any field,
  when its id is present, its date is present and well-formed, its domainKey is a key of
  the catalog, its score is present and numeric, and its note is a string of at most 1000
  code units in which the denylist finds nothing.
\<close>

theorem validate_accepts:
  assumes "isRequired (e_id e)"
    and "isRequired (e_date e)" and "isDate H (e_date e)"
    and "hasOwnDomain H (e_domainKey e)"
    and "isRequired (e_score e)" and "isNumber H (e_score e)"
    and "maxLength (e_note e) 1000" and "\<not> containsMaliciousContent (e_note e)"
  shows "validateEntry H e = \<lparr>isValid = True, errors = []\<rparr>"
proof -
  have "isValid (validateEntry H e)"
    unfolding isValid_validateEntry_iff using assms hasOwnDomain_isRequired by blast
  then show ?thesis by (simp add: isValid_validateEntry)
qed

theorem validate_accepts_witness:
  "validateEntry demo_host entry_ok = \<lparr>isValid = True, errors = []\<rparr>"
proof -
  have h: "isRequired (e_id entry_ok)" "isRequired (e_date entry_ok)"
    "isDate demo_host (e_date entry_ok)" "hasOwnDomain demo_host (e_domainKey entry_ok)"
    "isRequired (e_score entry_ok)" "isNumber demo_host (e_score entry_ok)"
    "maxLength (e_note entry_ok) 1000" "\<not> containsMaliciousContent (e_note entry_ok)"
    by code_simp+
  show ?thesis by (rule validate_accepts [OF h])
qed

text \<open>
  Claim C3 as stated fails: a record with a catalog domainKey, a well-formed date, a
  numeric score and a note of 19 characters is rejected, because the note matches the
  denylist.
\<close>

theorem validate_rejects_counterexample:
  "hasOwnDomain demo_host (e_domainKey entry_unsafe_note)
   \<and> isDate demo_host (e_date entry_unsafe_note)
   \<and> isNumber demo_host (e_score entry_unsafe_note)
   \<and> maxLength (e_note entry_unsafe_note) 1000
   \<and> validateEntry demo_host entry_unsafe_note =
       \<lparr>isValid = False, errors = [(''note'', [''Note contains potentially unsafe content''])]\<rparr>"
  by code_simp

section \<open>Properties of the CSV export\<close>

lemma replace_all_single:
  "replace_all [One p] rep s = concat (map (\<lambda>c. if p c then rep else [c]) s)"
proof (induction s)
  case Nil
  show ?case by (subst replace_all.simps) simp
next
  case (Cons c s)
  show ?case by (subst replace_all.simps) (simp add: Cons)
qed

lemma escapeCSV_Str: "escapeCSV H (Str t) = Inr (csv_quote t)"
proof -
  have t: "replace_all (lits [CHR 0x22]) (js [CHR 0x22, CHR 0x22]) t =
        concat (map (\<lambda>c. if c = cu CHR 0x22 then js [CHR 0x22, CHR 0x22] else [c]) t)"
    unfolding lits_def by (simp add: replace_all_single)
  have e: "replace_all (lits [CHR 0x22]) (js [CHR 0x22, CHR 0x22]) [] = []"
    unfolding lits_def by (simp add: replace_all_single)
  show ?thesis
    by (cases "t = []") (simp_all add: escapeCSV_def csv_quote_def t e)
qed

lemma csv_row_valid:
  assumes "isValid (validateEntry H e)"
  shows "csv_row H e = Inr (csv_line H e)"
proof -
  from assms have "maxLength (e_note e) 1000" by (simp add: isValid_validateEntry_iff)
  then obtain t where t: "e_note e = Str t" by (cases "e_note e") (auto simp: maxLength_def)
  show ?thesis
    by (cases "t = []") (simp_all add: csv_row_def csv_line_def t escapeCSV_Str)
qed

lemma csv_rows_valid:
  "\<forall>e\<in>set es. isValid (validateEntry H e) \<Longrightarrow> csv_rows H es = Inr (map (csv_line H) es)"
  by (induction es) (simp_all add: csv_row_valid)

lemma join_Cons: "join sep (x # xs) = x @ concat (map (\<lambda>y. sep @ y) xs)"
  by (induction xs arbitrary: x) simp_all

lemma exportToCSV_text:
  "exportToCSV H entries =
     (if entries = [] then None
      else Some (0xFEFF # js ''id,date,domainKey,score,note''
                 @ concat (map (\<lambda>e. 0x0A # csv_line H e)
                     (filter (\<lambda>e. isValid (validateEntry H e)) entries))))"
proof -
  have h: "join (js '','') [js ''id'', js ''date'', js ''domainKey'', js ''score'', js ''note'']
           = js ''id,date,domainKey,score,note''"
    by (simp add: js_def)
  have r: "csv_rows H (filter (\<lambda>e. isValid (validateEntry H e)) entries)
           = Inr (map (csv_line H) (filter (\<lambda>e. isValid (validateEntry H e)) entries))"
    by (rule csv_rows_valid) simp
  show ?thesis
    unfolding exportToCSV_def Let_def r h
    by (simp add: join_Cons js_def cu_def comp_def)
qed

text \<open>
  Claim C5, as the code has it. \<^verbatim>\<open>exportToCSV\<close> writes nothing for an empty collection.
  Otherwise the text is the byte-order mark, the header, and one row for each entry that
  passes validation, in order; the note of a row is in double quotes with its quotes
  doubled, an empty or missing note being \<^verbatim>\<open>""\<close>; \<^verbatim>\<open>sanitizeCSVValue\<close> turns
  \<^verbatim>\<open>undefined\<close>, \<^verbatim>\<open>null\<close> and the empty string into the empty string.
\<close>

theorem exportToCSV_format:
  "exportToCSV H entries =
     (if entries = [] then None
      else Some (0xFEFF # js ''id,date,domainKey,score,note''
                 @ concat (map (\<lambda>e. 0x0A # csv_line H e)
                     (filter (\<lambda>e. isValid (validateEntry H e)) entries))))
   \<and> escapeCSV H (Str t) = Inr (csv_quote t)
   \<and> escapeCSV H Undefined = Inr (csv_quote [])
   \<and> sanitizeCSVValue H Undefined = [] \<and> sanitizeCSVValue H Null = []
   \<and> sanitizeCSVValue H (Str []) = []"
proof -
  have u: "escapeCSV H Undefined = Inr (csv_quote [])"
    using escapeCSV_Str [of H "[]"] by (simp add: escapeCSV_def)
  have s: "sanitizeCSVValue H (Str []) = []"
    by (subst sanitizeCSVValue_def, subst replace_all.simps) (simp add: trim_def)
  show ?thesis
    using exportToCSV_text [of H entries] u s by (simp add: escapeCSV_Str sanitizeCSVValue_def)
qed

theorem exportToCSV_format_witness:
  \<open>exportToCSV demo_host [entry_ok] =
     Some (0xFEFF # js ''id,date,domainKey,score,note'' @ 0x0A #
           js ''1700000000000,2024-01-15,phq-9,12,"he said ""hi"", ok"'')
   \<and> escapeCSV demo_host (Str (js ''he said "hi", ok'')) = Inr (js ''"he said ""hi"", ok"'')\<close>
proof -
  have v: \<open>(if [entry_ok] = [] then None
      else Some (0xFEFF # js ''id,date,domainKey,score,note''
                 @ concat (map (\<lambda>e. 0x0A # csv_line demo_host e)
                     (filter (\<lambda>e. isValid (validateEntry demo_host e)) [entry_ok]))))
      = Some (0xFEFF # js ''id,date,domainKey,score,note'' @ 0x0A #
           js ''1700000000000,2024-01-15,phq-9,12,"he said ""hi"", ok"'')\<close>
    by code_simp
  have q: \<open>csv_quote (js ''he said "hi", ok'') = js ''"he said ""hi"", ok"''\<close>
    by code_simp
  note f = exportToCSV_format [of demo_host "[entry_ok]" \<open>js ''he said "hi", ok''\<close>]
  show ?thesis
    using f [THEN conjunct1] f [THEN conjunct2, THEN conjunct1] unfolding v q by simp
qed

text \<open>
  Claim C5 as stated ("one row per entry") fails: an entry that does not pass validation,
  here for a domainKey outside the catalog, gets no row.
\<close>

theorem exportToCSV_skips_counterexample:
  "exportToCSV demo_host [entry_unknown_domain] = Some (0xFEFF # js ''id,date,domainKey,score,note'')
   \<and> length [entry_unknown_domain] = 1"
  by code_simp

section \<open>The ids of the collection\<close>

text \<open>
  Claim C9 at a failing input: \<^verbatim>\<open>addEntry\<close> accepts an entry whose id is already in the
  collection, and the ids are no longer pairwise distinct.
\<close>

theorem addEntry_duplicate_id:
  "distinct (map e_id [entry_ok])
   \<and> addEntry demo_host En entry_same_id [entry_ok] = (True, [entry_same_id, entry_ok])
   \<and> \<not> distinct (map e_id (snd (addEntry demo_host En entry_same_id [entry_ok])))"
  by code_simp

section \<open>The round trip through CSV\<close>

subsection \<open>split, join and trim\<close>

lemma split_no_sep: "sep \<notin> set x \<Longrightarrow> split sep x = [x]"
  by (induction x) auto

lemma split_append_sep: "sep \<notin> set x \<Longrightarrow> split sep (x @ sep # rest) = x # split sep rest"
  by (induction x) auto

lemma split_not_Nil: "split sep s \<noteq> []"
  by (induction s) (auto split: list.splits)

lemma join_split: "join [sep] (split sep s) = s"
proof (induction s)
  case Nil
  show ?case by simp
next
  case (Cons c s)
  obtain p ps where sp: "split sep s = p # ps" using split_not_Nil [of sep s] by (cases "split sep s") auto
  show ?case using Cons sp by (cases ps) auto
qed

lemma split_lines:
  "sep \<notin> set x \<Longrightarrow> \<forall>y\<in>set ys. sep \<notin> set y \<Longrightarrow>
     split sep (x @ concat (map (\<lambda>y. sep # y) ys)) = x # ys"
proof (induction ys arbitrary: x)
  case Nil
  then show ?case by (simp add: split_no_sep)
next
  case (Cons y ys)
  have "split sep (x @ sep # (y @ concat (map (\<lambda>y. sep # y) ys))) =
        x # split sep (y @ concat (map (\<lambda>y. sep # y) ys))"
    using Cons.prems(1) by (rule split_append_sep)
  moreover have "split sep (y @ concat (map (\<lambda>y. sep # y) ys)) = y # ys"
    using Cons.prems(2) by (intro Cons.IH) auto
  ultimately show ?case by simp
qed

lemma trim_id: "s \<noteq> [] \<Longrightarrow> \<not> isWhiteSpace (hd s) \<Longrightarrow> \<not> isWhiteSpace (last s) \<Longrightarrow> trim s = s"
proof -
  assume ne: "s \<noteq> []" and h: "\<not> isWhiteSpace (hd s)" and l: "\<not> isWhiteSpace (last s)"
  have a: "dropWhile isWhiteSpace s = s" using ne h by (cases s) auto
  have "rev s \<noteq> []" "\<not> isWhiteSpace (hd (rev s))" using ne l by (simp_all add: hd_rev)
  then have b: "dropWhile isWhiteSpace (rev s) = rev s" by (cases "rev s") auto
  show ?thesis by (simp add: trim_def a b)
qed

lemma trim_not_Nil: "s \<noteq> [] \<Longrightarrow> \<not> isWhiteSpace (hd s) \<Longrightarrow> trim s \<noteq> []"
proof -
  assume ne: "s \<noteq> []" and h: "\<not> isWhiteSpace (hd s)"
  have a: "dropWhile isWhiteSpace s = s" using ne h by (cases s) auto
  have "\<exists>x\<in>set (rev s). \<not> isWhiteSpace x" using ne h by (cases s) auto
  then have "dropWhile isWhiteSpace (rev s) \<noteq> []" by (simp add: dropWhile_eq_Nil_conv)
  then show ?thesis by (simp add: trim_def a)
qed


subsection \<open>Quoting a note and reading it back\<close>

lemma undouble_quotes:
  "replace_all [One (\<lambda>x. x = q), One (\<lambda>x. x = q)] [q]
     (concat (map (\<lambda>c. if c = q then [q, q] else [c]) t)) = t"
proof (induction t)
  case Nil
  show ?case by (subst replace_all.simps) simp
next
  case (Cons c t)
  show ?case
  proof (cases "c = q")
    case True
    show ?thesis by (subst replace_all.simps) (simp add: True Cons)
  next
    case False
    show ?thesis by (subst replace_all.simps) (simp add: False Cons)
  qed
qed

lemma csv_quote_unfold:
  "csv_quote t = cu CHR 0x22 # concat (map (\<lambda>c. if c = cu CHR 0x22 then [cu CHR 0x22, cu CHR 0x22] else [c]) t)
                 @ [cu CHR 0x22]"
  unfolding csv_quote_def js_def by (simp cong: if_cong)

lemma unquote_note_csv_quote: "unquote_note (csv_quote t) = t"
proof -
  let ?q = "cu CHR 0x22"
  let ?body = "concat (map (\<lambda>c. if c = ?q then [?q, ?q] else [c]) t)"
  have s: "strip_wrapping_quotes (?q # ?body @ [?q]) = ?body"
    by (simp add: strip_wrapping_quotes_def)
  have l: "lits [CHR 0x22, CHR 0x22] = [One (\<lambda>x. x = ?q), One (\<lambda>x. x = ?q)]"
    by (simp add: lits_def)
  show ?thesis
    unfolding unquote_note_def csv_quote_unfold s l
    by (simp add: js_def undouble_quotes)
qed

lemma csv_quote_props:
  "csv_quote t \<noteq> []" "hd (csv_quote t) = cu CHR 0x22" "last (csv_quote t) = cu CHR 0x22"
  "0x0A \<notin> set t \<Longrightarrow> 0x0A \<notin> set (csv_quote t)"
  by (auto simp: csv_quote_unfold cu_def split: if_splits)

lemma not_ws_quote: "\<not> isWhiteSpace (cu CHR 0x22)"
  by (simp add: isWhiteSpace_def cu_def)

lemma trim_csv_quote: "trim (csv_quote t) = csv_quote t"
  by (rule trim_id) (simp_all add: csv_quote_props not_ws_quote)

subsection \<open>Plain fields\<close>

lemma csv_plain_sanitize:
  assumes "csv_plain s"
  shows "trim (replace_all [One (\<lambda>c. c = 0x0D \<or> c = 0x0A \<or> c = 0x09)] (js '' '') s) = s"
proof -
  have "\<forall>c\<in>set s. \<not> (c = 0x0D \<or> c = 0x0A \<or> c = 0x09)"
    using assms by (auto simp: csv_plain_def list_all_iff)
  then have "concat (map (\<lambda>c. if c = 0x0D \<or> c = 0x0A \<or> c = 0x09 then js '' '' else [c]) s) = s"
    by (induction s) auto
  then have "replace_all [One (\<lambda>c. c = 0x0D \<or> c = 0x0A \<or> c = 0x09)] (js '' '') s = s"
    by (simp add: replace_all_single)
  moreover have "trim s = s" using assms by (intro trim_id) (simp_all add: csv_plain_def)
  ultimately show ?thesis by simp
qed

lemma csv_plain_facts:
  assumes "csv_plain s"
  shows "s \<noteq> []" "trim s = s" "cu CHR '','' \<notin> set s" "0x0A \<notin> set s" "\<not> isWhiteSpace (hd s)"
  using assms by (auto simp: csv_plain_def list_all_iff intro: trim_id)

lemma catalog_keys_plain: "k \<in> fst ` set (domains En) \<Longrightarrow> csv_plain k"
  by (auto simp: domains_def csv_plain_def js_def cu_def isWhiteSpace_def)


subsection \<open>A row that is read back\<close>

lemma parseCSVRow_plain:
  assumes "csv_plain i" "csv_plain d" "csv_plain k" "csv_plain n"
  shows "parseCSVRow (i @ js '','' @ d @ js '','' @ k @ js '','' @ n @ js '','' @ csv_quote t) =
           (Some i, Some d, Some k, Some n, csv_quote t)"
proof -
  let ?c = "cu CHR '',''"
  have sp: "split ?c (i @ ?c # d @ ?c # k @ ?c # n @ ?c # csv_quote t) =
        i # d # k # n # split ?c (csv_quote t)"
    using assms by (simp add: split_append_sep csv_plain_facts)
  have j: "join [?c] (split ?c (csv_quote t)) = csv_quote t" by (rule join_split)
  show ?thesis
    unfolding parseCSVRow_def Let_def
    using sp j assms by (simp add: js_def part_def csv_plain_facts trim_csv_quote)
qed

lemma plain_stringE:
  assumes "plain_string v"
  obtains s where "v = Str s" "csv_plain s"
  using assms by (cases v) (simp_all add: plain_string_def)

lemma portable_fields:
  assumes "portable H e"
  obtains i d k n t where "e_id e = Str i" "e_date e = Str d" "e_domainKey e = Str k"
    "e_score e = Num n" "e_note e = Str t" "csv_plain i" "csv_plain d"
    "csv_plain (Number_toString H n)" "StringToNumber H (Number_toString H n) = n" "0x0A \<notin> set t"
proof -
  from assms obtain i where i: "e_id e = Str i" "csv_plain i"
    by (auto simp: portable_def elim: plain_stringE)
  from assms obtain d where d: "e_date e = Str d" "csv_plain d"
    by (auto simp: portable_def elim: plain_stringE)
  from assms obtain k where k: "e_domainKey e = Str k"
    by (cases "e_domainKey e") (simp_all add: portable_def)
  from assms obtain n where n: "e_score e = Num n" "csv_plain (Number_toString H n)"
    "StringToNumber H (Number_toString H n) = n"
    by (cases "e_score e") (simp_all add: portable_def)
  from assms obtain t where t: "e_note e = Str t" "0x0A \<notin> set t"
    by (cases "e_note e") (simp_all add: portable_def)
  show ?thesis using that i d k n t by blast
qed

lemma csv_line_portable:
  assumes e: "e_id e = Str i" "e_date e = Str d" "e_domainKey e = Str k" "e_score e = Num n"
    "e_note e = Str t"
    and p: "csv_plain i" "csv_plain d" "csv_plain k" "csv_plain (Number_toString H n)"
  shows "csv_line H e =
           i @ js '','' @ d @ js '','' @ k @ js '','' @ Number_toString H n @ js '','' @ csv_quote t"
  by (simp add: csv_line_def sanitizeCSVValue_def e csv_plain_sanitize [OF p(1)]
      csv_plain_sanitize [OF p(2)] csv_plain_sanitize [OF p(3)] csv_plain_sanitize [OF p(4)])

lemma import_row_portable:
  assumes v: "isValid (validateEntry H e)" and p: "portable H e"
    and fresh: "e_id e \<notin> e_id ` set entries"
  shows "import_row H entries (csv_line H e) = ImportedRow e"
proof -
  from p obtain i d k n t where f: "e_id e = Str i" "e_date e = Str d" "e_domainKey e = Str k"
    "e_score e = Num n" "e_note e = Str t"
    and pl: "csv_plain i" "csv_plain d" "csv_plain (Number_toString H n)"
    and num: "StringToNumber H (Number_toString H n) = n" and nl: "0x0A \<notin> set t"
    by (rule portable_fields)
  from v have own: "hasOwnDomain H (e_domainKey e)" and isnum: "isNumber H (e_score e)"
    by (simp_all add: isValid_validateEntry_iff)
  have kcat: "k \<in> fst ` set (domains En)" using own by (simp add: hasOwnDomain_def f)
  then have kp: "csv_plain k" by (rule catalog_keys_plain)
  have nn: "\<not> Number_isNaN H n" using isnum by (simp add: isNumber_def f)
  let ?ns = "Number_toString H n"
  have line: "csv_line H e = i @ js '','' @ d @ js '','' @ k @ js '','' @ ?ns @ js '','' @ csv_quote t"
    using f pl kp by (intro csv_line_portable)
  have parse: "parseCSVRow (csv_line H e) = (Some i, Some d, Some k, Some ?ns, csv_quote t)"
    unfolding line using pl(1,2) kp pl(3) by (rule parseCSVRow_plain)
  have nb: "trim (csv_line H e) \<noteq> []"
    unfolding line using pl(1) by (intro trim_not_Nil) (simp_all add: csv_plain_facts)
  have okrow: "isValidImportRow H i d k ?ns (csv_quote t)"
    using pl kp kcat nn by (simp add: isValidImportRow_def csv_plain_facts num)
  have nodup: "\<not> (\<exists>x\<in>set entries. e_id x = Str i)" using fresh f by force
  have new: "\<lparr>e_id = Str i, e_date = Str d, e_domainKey = Str k,
              e_score = Num (StringToNumber H ?ns), e_note = Str (unquote_note (csv_quote t))\<rparr> = e"
    by (simp add: num unquote_note_csv_quote f [symmetric])
  show ?thesis
    unfolding import_row_def parse using nb okrow nodup v by (simp add: new Let_def)
qed

lemma import_rows_portable:
  assumes "\<forall>e\<in>set es. isValid (validateEntry H e) \<and> portable H e"
    and "distinct (map e_id es)" and "e_id ` set es \<inter> e_id ` set entries = {}"
  shows "import_rows H (map (csv_line H) es) (entries, i, s) = (entries @ es, i + length es, s)"
  using assms
proof (induction es arbitrary: entries i)
  case Nil
  show ?case by simp
next
  case (Cons e es)
  have r: "import_row H entries (csv_line H e) = ImportedRow e"
    using Cons.prems by (intro import_row_portable) auto
  have ih: "import_rows H (map (csv_line H) es) (entries @ [e], i + 1, s) =
          ((entries @ [e]) @ es, (i + 1) + length es, s)"
    using Cons.prems by (intro Cons.IH) auto
  show ?case using ih by (simp add: r)
qed


lemma trim_Nil_iff: "trim s = [] \<longleftrightarrow> (\<forall>c\<in>set s. isWhiteSpace c)"
proof
  assume "trim s = []"
  then have a: "\<forall>x\<in>set (dropWhile isWhiteSpace s). isWhiteSpace x"
    by (simp add: trim_def dropWhile_eq_Nil_conv)
  have "dropWhile isWhiteSpace s = []"
  proof (rule ccontr)
    assume ne: "dropWhile isWhiteSpace s \<noteq> []"
    then have "\<not> isWhiteSpace (hd (dropWhile isWhiteSpace s))" by (rule hd_dropWhile)
    moreover have "hd (dropWhile isWhiteSpace s) \<in> set (dropWhile isWhiteSpace s)"
      using ne by simp
    ultimately show False using a by blast
  qed
  then show "\<forall>c\<in>set s. isWhiteSpace c" by (simp add: dropWhile_eq_Nil_conv)
next
  assume "\<forall>c\<in>set s. isWhiteSpace c"
  then have d: "dropWhile isWhiteSpace s = []" by (simp add: dropWhile_eq_Nil_conv)
  show "trim s = []" unfolding trim_def d by simp
qed

lemma csv_line_no_newline:
  assumes v: "isValid (validateEntry H e)" and p: "portable H e"
  shows "0x0A \<notin> set (csv_line H e)"
proof -
  from p obtain i d k n t where f: "e_id e = Str i" "e_date e = Str d" "e_domainKey e = Str k"
    "e_score e = Num n" "e_note e = Str t"
    and pl: "csv_plain i" "csv_plain d" "csv_plain (Number_toString H n)"
    and nl: "0x0A \<notin> set t"
    by (rule portable_fields)
  from v have "hasOwnDomain H (e_domainKey e)" by (simp add: isValid_validateEntry_iff)
  then have kp: "csv_plain k" by (intro catalog_keys_plain) (simp add: hasOwnDomain_def f)
  have line: "csv_line H e =
      i @ js '','' @ d @ js '','' @ k @ js '','' @ Number_toString H n @ js '','' @ csv_quote t"
    using f pl kp by (intro csv_line_portable)
  show ?thesis
    unfolding line using pl kp nl
    by (simp add: csv_plain_facts csv_quote_props js_def cu_def)
qed

text \<open>
  Claim C2, as the code has it. Exporting a collection and handing a file that holds the
  exported text to \<^verbatim>\<open>importFromCSV\<close>, on an empty collection, gives back the same entries,
  in the order of the display sort, with every entry imported and none skipped, provided
  that the collection is not empty, has at most 10000 entries with pairwise distinct ids,
  each entry passes validation and is portable, the name of the file ends in \<^verbatim>\<open>.csv\<close>
  (in any case of the letters) and the file is no larger than 10 MB, the size above which
  \<^verbatim>\<open>importFromCSV\<close> refuses a file without reading it.
\<close>

theorem csv_round_trip:
  assumes ne: "entries \<noteq> []" and cap: "length entries \<le> maxImportRows"
    and ids: "distinct (map e_id entries)"
    and ok: "\<forall>e\<in>set entries. isValid (validateEntry H e) \<and> portable H e"
    and perm: "\<forall>xs. mset (Array_sort H xs) = mset xs"
    and name: "suffix (js ''.csv'') (toLowerCase_ascii (file_name f))"
    and size: "file_size f \<le> 10 * 1024 * 1024"
    and content: "file_text f = exportToCSV H entries"
  shows "\<exists>exported entries'. exportToCSV H entries = Some exported
           \<and> importFromCSV H (Some f) [] = Some (entries', length entries, 0)
           \<and> mset entries' = mset entries"
proof -
  let ?head = "0xFEFF # js ''id,date,domainKey,score,note''"
  let ?text = "?head @ concat (map (\<lambda>y. 0x0A # y) (map (csv_line H) entries))"
  have flt: "filter (\<lambda>e. isValid (validateEntry H e)) entries = entries"
    using ok by (simp add: filter_id_conv)
  have ex: "exportToCSV H entries = Some ?text"
    using ne by (simp add: exportToCSV_text flt comp_def)
  have hd_nl: "0x0A \<notin> set ?head" by (simp add: js_def cu_def)
  have lines_nl: "\<forall>y\<in>set (map (csv_line H) entries). 0x0A \<notin> set y"
    using ok by (auto simp: csv_line_no_newline)
  have sp: "split 0x0A ?text = ?head # map (csv_line H) entries"
    using hd_nl lines_nl by (rule split_lines)
  have "cu CHR ''i'' \<in> set ?text" by (simp add: js_def)
  moreover have "\<not> isWhiteSpace (cu CHR ''i'')" by (simp add: isWhiteSpace_def cu_def)
  ultimately have nb: "trim ?text \<noteq> []" unfolding trim_Nil_iff by blast
  have tk: "take maxImportRows (map (csv_line H) entries) = map (csv_line H) entries"
    using cap by simp
  have rows: "import_rows H (map (csv_line H) entries) ([], 0, 0) =
              ([] @ entries, 0 + length entries, 0)"
    using ok ids by (intro import_rows_portable) auto
  have im: "importCSVText H ?text [] = Some (Array_sort H entries, length entries, 0)"
    unfolding importCSVText_def Let_def sp using nb by (simp add: tk rows)
  have ft: "file_text f = Some ?text" using content ex by simp
  have "\<not> 10 * 1024 * 1024 < file_size f" using size by simp
  then have "importFromCSV H (Some f) [] = importCSVText H ?text []"
    unfolding importFromCSV_def using name by (simp add: ft)
  then show ?thesis using ex im perm by simp
qed


lemma mset_insert_desc: "mset (insert_desc x ys) = add_mset x (mset ys)"
  by (induction ys) simp_all

lemma mset_sort_by_date_desc: "mset (sort_by_date_desc xs) = mset xs"
proof -
  have "mset (foldl (\<lambda>acc x. insert_desc x acc) a xs) = mset a + mset xs" for a
    by (induction xs arbitrary: a) (simp_all add: mset_insert_desc)
  then show ?thesis by (simp add: sort_by_date_desc_def)
qed

lemma demo_sort_perm: "\<forall>xs. mset (Array_sort demo_host xs) = mset xs"
  by (simp add: demo_host_def mset_sort_by_date_desc)

theorem csv_round_trip_witness:
  "exportToCSV demo_host [entry_ok, entry_later] = Some csv_two_entries
   \<and> file_text file_two_entries = Some csv_two_entries
   \<and> importFromCSV demo_host (Some file_two_entries) [] = Some ([entry_later, entry_ok], 2, 0)
   \<and> mset [entry_later, entry_ok] = mset [entry_ok, entry_later]"
proof -
  have ne: "[entry_ok, entry_later] \<noteq> []" by simp
  have cap: "length [entry_ok, entry_later] \<le> maxImportRows" by (simp add: maxImportRows_def)
  have ids: "distinct (map e_id [entry_ok, entry_later])" by code_simp
  have v1: "isValid (validateEntry demo_host entry_ok)" by code_simp
  have v2: "isValid (validateEntry demo_host entry_later)" by code_simp
  have p1: "portable demo_host entry_ok" by code_simp
  have p2: "portable demo_host entry_later" by code_simp
  have ok: "\<forall>e\<in>set [entry_ok, entry_later]. isValid (validateEntry demo_host e) \<and> portable demo_host e"
    using v1 v2 p1 p2 by simp
  have ex: "exportToCSV demo_host [entry_ok, entry_later] = Some csv_two_entries" by code_simp
  have name: "suffix (js ''.csv'') (toLowerCase_ascii (file_name file_two_entries))" by code_simp
  have size: "file_size file_two_entries \<le> 10 * 1024 * 1024" by (simp add: file_two_entries_def)
  have ft: "file_text file_two_entries = Some csv_two_entries" by (simp add: file_two_entries_def)
  have content: "file_text file_two_entries = exportToCSV demo_host [entry_ok, entry_later]"
    using ft ex by simp
  obtain entries' where
    b: "importFromCSV demo_host (Some file_two_entries) [] =
          Some (entries', length [entry_ok, entry_later], 0)"
    and c: "mset entries' = mset [entry_ok, entry_later]"
    using csv_round_trip [OF ne cap ids ok demo_sort_perm name size content] by blast
  have im0: "importCSVText demo_host csv_two_entries [] = Some ([entry_later, entry_ok], 2, 0)"
    by code_simp
  have im: "importFromCSV demo_host (Some file_two_entries) [] = Some ([entry_later, entry_ok], 2, 0)"
    unfolding importFromCSV_def using name size by (simp add: ft im0)
  have "entries' = [entry_later, entry_ok]" using b im by simp
  then show ?thesis using ex ft im c by simp
qed

text \<open>
  Claim C2 as stated fails: a valid entry whose note has two lines is exported on two
  lines, which the import reads as two rows. It keeps the first line of the note and skips
  the rest.
\<close>

theorem csv_round_trip_counterexample:
  "isValid (validateEntry demo_host entry_two_lines)
   \<and> exportToCSV demo_host [entry_two_lines] = Some csv_two_lines
   \<and> file_text file_two_lines = Some csv_two_lines
   \<and> importFromCSV demo_host (Some file_two_lines) [] = Some ([entry_first_line], 1, 1)
   \<and> e_note entry_first_line \<noteq> e_note entry_two_lines"
proof -
  have v: "isValid (validateEntry demo_host entry_two_lines)" by code_simp
  have ex: "exportToCSV demo_host [entry_two_lines] = Some csv_two_lines" by code_simp
  have name: "suffix (js ''.csv'') (toLowerCase_ascii (file_name file_two_lines))" by code_simp
  have size: "file_size file_two_lines \<le> 10 * 1024 * 1024" by (simp add: file_two_lines_def)
  have ft: "file_text file_two_lines = Some csv_two_lines" by (simp add: file_two_lines_def)
  have im0: "importCSVText demo_host csv_two_lines [] = Some ([entry_first_line], 1, 1)"
    by code_simp
  have im: "importFromCSV demo_host (Some file_two_lines) [] = Some ([entry_first_line], 1, 1)"
    unfolding importFromCSV_def using name size by (simp add: ft im0)
  have ne: "e_note entry_first_line \<noteq> e_note entry_two_lines" by code_simp
  show ?thesis using v ex ft im ne by simp
qed

section \<open>Importing a text twice\<close>

lemma import_row_alt:
  "import_row H entries rowStr =
     (if trim rowStr = [] then BlankRow
      else case row_candidate H rowStr of
             None \<Rightarrow> SkippedRow
           | Some new \<Rightarrow>
               if e_id new \<in> e_id ` set entries then SkippedRow
               else if isValid (validateEntry H new) then ImportedRow new else SkippedRow)"
  by (auto simp: import_row_def row_candidate_def Let_def image_iff
      split: prod.splits option.splits)

lemma import_row_settled:
  assumes "import_row H A rowStr = r" and "e_id ` set A \<subseteq> e_id ` set B"
    and "\<And>new. r = ImportedRow new \<Longrightarrow> e_id new \<in> e_id ` set B"
  shows "import_row H B rowStr = (if trim rowStr = [] then BlankRow else SkippedRow)"
  using assms unfolding import_row_alt
  by (auto split: if_splits option.splits)

lemma import_rows_first:
  assumes "import_rows H rows (A, i, s) = (B, i', s')"
  shows "set A \<subseteq> set B \<and> i' + s' = i + s + length (filter (\<lambda>r. trim r \<noteq> []) rows)
         \<and> (\<forall>rowStr\<in>set rows.
              import_row H B rowStr = (if trim rowStr = [] then BlankRow else SkippedRow))"
  using assms
proof (induction rows arbitrary: A i s)
  case Nil
  then show ?case by simp
next
  case (Cons rowStr rows)
  define st where "st = (case import_row H A rowStr of
          BlankRow \<Rightarrow> (A, i, s)
        | SkippedRow \<Rightarrow> (A, i, s + 1)
        | ImportedRow newEntry \<Rightarrow> (A @ [newEntry], i + 1, s))"
  obtain A1 i1 s1 where st1: "st = (A1, i1, s1)" by (cases st)
  have run: "import_rows H rows (A1, i1, s1) = (B, i', s')"
    using Cons.prems by (simp add: st_def [symmetric] st1)
  note ih = Cons.IH [OF run]
  have sub: "set A \<subseteq> set A1" using st1 by (auto simp: st_def split: row_result.splits)
  have cnt: "i1 + s1 = i + s + (if trim rowStr = [] then 0 else 1)"
    using st1 by (auto simp: st_def import_row_alt split: row_result.splits if_splits option.splits)
  have new: "\<And>new. import_row H A rowStr = ImportedRow new \<Longrightarrow> new \<in> set A1"
    using st1 by (auto simp: st_def)
  have head: "import_row H B rowStr = (if trim rowStr = [] then BlankRow else SkippedRow)"
  proof (rule import_row_settled [OF refl])
    show "e_id ` set A \<subseteq> e_id ` set B" using sub ih by blast
    show "\<And>new. import_row H A rowStr = ImportedRow new \<Longrightarrow> e_id new \<in> e_id ` set B"
      using new ih by blast
  qed
  show ?case using ih sub cnt head by auto
qed

lemma import_rows_settled:
  assumes "\<forall>rowStr\<in>set rows.
              import_row H B rowStr = (if trim rowStr = [] then BlankRow else SkippedRow)"
  shows "import_rows H rows (B, i, s) = (B, i, s + length (filter (\<lambda>r. trim r \<noteq> []) rows))"
  using assms by (induction rows arbitrary: s) simp_all

lemma import_row_sorted:
  assumes "\<forall>xs. mset (Array_sort H xs) = mset xs"
  shows "import_row H (Array_sort H B) rowStr = import_row H B rowStr"
proof -
  have s: "set (Array_sort H B) = set B" using assms by (metis set_mset_mset)
  show ?thesis unfolding import_row_alt s ..
qed

text \<open>
  Claim C4, as the code has it. Importing a text again, into the collection that its first
  import has left, imports nothing: the collection keeps its entries, \<^verbatim>\<open>importedCount\<close>
  is 0, and every row that the import counts is skipped, so that \<^verbatim>\<open>skippedCount\<close> is
  their number, which is also the sum of the two counters of the first import. A row is
  skipped because its id is in the collection or because it is not valid.
\<close>

theorem second_import_adds_nothing:
  assumes perm: "\<forall>xs. mset (Array_sort H xs) = mset xs"
    and first: "importCSVText H text entries0 = Some (entries1, imported1, skipped1)"
  shows "(\<exists>entries2. importCSVText H text entries1 = Some (entries2, 0, imported1 + skipped1)
            \<and> mset entries2 = mset entries1)
       \<and> imported1 + skipped1 = length (data_rows text)
       \<and> (\<forall>rowStr\<in>set (data_rows text). import_row H entries1 rowStr = SkippedRow)"
proof -
  let ?rows = "take maxImportRows (tl (split 0x0A text))"
  from first have nb: "\<not> (text = [] \<or> trim text = [])"
    by (auto simp: importCSVText_def split: if_splits)
  obtain B i s where run: "import_rows H ?rows (entries0, 0, 0) = (B, i, s)"
    by (cases "import_rows H ?rows (entries0, 0, 0)")
  from first nb run have e1: "entries1 = Array_sort H B" "imported1 = i" "skipped1 = s"
    by (simp_all add: importCSVText_def Let_def)
  note f = import_rows_first [OF run]
  have settled: "\<forall>rowStr\<in>set ?rows.
       import_row H entries1 rowStr = (if trim rowStr = [] then BlankRow else SkippedRow)"
    using f by (simp add: e1 import_row_sorted [OF perm])
  have cnt: "imported1 + skipped1 = length (data_rows text)"
    using f by (simp add: e1 data_rows_def)
  have again: "import_rows H ?rows (entries1, 0, 0) = (entries1, 0, 0 + length (data_rows text))"
    unfolding data_rows_def using settled by (rule import_rows_settled)
  have second: "importCSVText H text entries1 = Some (Array_sort H entries1, 0, imported1 + skipped1)"
    using nb again by (simp add: importCSVText_def Let_def cnt)
  have skipped: "\<forall>rowStr\<in>set (data_rows text). import_row H entries1 rowStr = SkippedRow"
    using settled by (simp add: data_rows_def)
  show ?thesis using second perm cnt skipped by blast
qed

theorem second_import_adds_nothing_witness:
  "importCSVText demo_host csv_two_entries [] = Some ([entry_later, entry_ok], 2, 0)
   \<and> importCSVText demo_host csv_two_entries [entry_later, entry_ok] = Some ([entry_later, entry_ok], 0, 2)
   \<and> length (data_rows csv_two_entries) = 2"
proof -
  have first: "importCSVText demo_host csv_two_entries [] = Some ([entry_later, entry_ok], 2, 0)"
    by code_simp
  note t = second_import_adds_nothing [OF demo_sort_perm first]
  obtain entries2 where
    s: "importCSVText demo_host csv_two_entries [entry_later, entry_ok] = Some (entries2, 0, 2 + 0)"
    using t by blast
  have ev: "importCSVText demo_host csv_two_entries [entry_later, entry_ok] =
              Some ([entry_later, entry_ok], 0, 2)"
    by code_simp
  have n: "length (data_rows csv_two_entries) = 2" using t by simp
  show ?thesis using first ev n by simp
qed

text \<open>
  Claim C4 as stated fails: the export of one entry with a note of two lines has two rows;
  the second import skips both, the second one not because its id
  \<^verbatim>\<open>second line"\<close> is in the collection (it is not) but because the row is not valid.
\<close>

theorem second_import_counterexample:
  \<open>exportToCSV demo_host [entry_two_lines] = Some csv_two_lines
   \<and> importCSVText demo_host csv_two_lines [] = Some ([entry_first_line], 1, 1)
   \<and> importCSVText demo_host csv_two_lines [entry_first_line] = Some ([entry_first_line], 0, 2)
   \<and> parseCSVRow (js ''second line"'') = (Some (js ''second line"''), None, None, None, [])
   \<and> Str (js ''second line"'') \<notin> e_id ` set [entry_first_line]
   \<and> length [entry_two_lines] = 1\<close>
  by code_simp

section \<open>What keeps the ids distinct\<close>

text \<open>
  \<^verbatim>\<open>deleteEntry\<close> and the import keep pairwise distinct ids; \<^verbatim>\<open>addEntry\<close> keeps them
  exactly when the id of the new entry is not yet in the collection.
\<close>

lemma distinct_map_mset: "mset xs = mset ys \<Longrightarrow> distinct (map f xs) = distinct (map f ys)"
  by (metis mset_map mset_eq_imp_distinct_iff)

lemma deleteEntry_distinct:
  assumes "\<forall>xs. mset (Array_sort H xs) = mset xs" and "distinct (map e_id entries)"
  shows "distinct (map e_id (snd (deleteEntry H ident entries)))"
proof -
  have f: "distinct (map e_id (filter P entries))" for P
    using assms(2) by (simp add: distinct_map_filter)
  have s: "distinct (map e_id (Array_sort H xs)) = distinct (map e_id xs)" for xs
    using assms(1) by (intro distinct_map_mset) simp
  show ?thesis
    using assms(2) by (simp add: deleteEntry_def Let_def s f)
qed

lemma import_rows_distinct:
  assumes "import_rows H rows (A, i, s) = (B, i', s')" and "distinct (map e_id A)"
  shows "distinct (map e_id B)"
  using assms
proof (induction rows arbitrary: A i s)
  case Nil
  then show ?case by simp
next
  case (Cons rowStr rows)
  show ?case
  proof (cases "import_row H A rowStr")
    case BlankRow
    then show ?thesis using Cons by simp
  next
    case SkippedRow
    then show ?thesis using Cons by simp
  next
    case (ImportedRow new)
    then have "e_id new \<notin> e_id ` set A"
      by (auto simp: import_row_alt split: if_splits option.splits)
    then have "distinct (map e_id (A @ [new]))" using Cons.prems(2) by simp
    then show ?thesis using Cons.IH Cons.prems(1) ImportedRow by simp
  qed
qed

lemma importCSVText_distinct:
  assumes "\<forall>xs. mset (Array_sort H xs) = mset xs" and "distinct (map e_id entries)"
    and "importCSVText H text entries = Some (entries', imported, skipped)"
  shows "distinct (map e_id entries')"
proof -
  let ?rows = "take maxImportRows (tl (split 0x0A text))"
  obtain B i s where run: "import_rows H ?rows (entries, 0, 0) = (B, i, s)"
    by (cases "import_rows H ?rows (entries, 0, 0)")
  have "distinct (map e_id B)" using run assms(2) by (rule import_rows_distinct)
  moreover have "entries' = Array_sort H B"
    using assms(3) run by (auto simp: importCSVText_def Let_def split: if_splits)
  moreover have "distinct (map e_id (Array_sort H B)) = distinct (map e_id B)"
    using assms(1) by (intro distinct_map_mset) simp
  ultimately show ?thesis by simp
qed

lemma addEntry_distinct_iff:
  assumes "\<forall>xs. mset (Array_sort H xs) = mset xs" and "distinct (map e_id entries)"
    and "fst (addEntry H lang e entries)"
  shows "distinct (map e_id (snd (addEntry H lang e entries))) \<longleftrightarrow> e_id e \<notin> e_id ` set entries"
proof -
  have "snd (addEntry H lang e entries) = Array_sort H (entries @ [e])"
    using assms(3) by (auto simp: addEntry_def split: if_splits option.splits)
  moreover have "distinct (map e_id (Array_sort H (entries @ [e]))) = distinct (map e_id (entries @ [e]))"
    using assms(1) by (intro distinct_map_mset) simp
  ultimately show ?thesis using assms(2) by simp
qed

end
